theory Spec2Isabelle
  imports Complex_Main "HOL-Library.AList" "HOL-Library.Char_ord"
    "HOL-Library.List_Lexorder" "HOL-Library.Product_Lexorder"
begin

section \<open>Data model (models.py)\<close>

text \<open>
  Python values that occur in the JSON records of the system. A \<open>dict\<close> is an
  association list in insertion order; timestamps are Python floats and are modelled
  as real numbers (no rounding, no NaN).
\<close>

datatype pyval =
    PNone
  | PBool bool
  | PInt int
  | PFloat real
  | PStr string
  | PList "pyval list"
  | PDict "(string \<times> pyval) list"

datatype error =
    KeyError
  | TypeError
  | ValueError
  | IndexError
  | JSONDecodeError
  | ClientError
  | NoSuchKey
  | IllTyped

datatype MessageStatus = PENDING | SUCCESS | FAILED_MAX_RETRIES

text \<open>
  \<open>class Message\<close>. The field \<open>message_id\<close> of the source is \<open>msg_id\<close> here,
  because \<open>MessageState\<close> has a field of the same name.
\<close>

record Message =
  msg_id :: string
  content :: string
  metadata :: "(string \<times> pyval) list option"

record MessageState =
  message_id :: string
  message :: Message
  attempt_count :: int
  next_retry_at :: real
  status :: MessageStatus
  created_at :: real
  updated_at :: real

definition RETRY_SCHEDULE :: "real list" where
  "RETRY_SCHEDULE = [0, 1/2, 2, 4, 8, 16]"

definition MAX_ATTEMPTS :: int where
  "MAX_ATTEMPTS = 6"

text \<open>
  Subscripting a Python list with an integer: \<open>xs[i]\<close> for \<open>0 \<le> i < len(xs)\<close>,
  \<open>xs[len(xs) + i]\<close> for \<open>-len(xs) \<le> i < 0\<close>, and IndexError for every other \<open>i\<close>.
\<close>

definition py_index :: "'a list \<Rightarrow> int \<Rightarrow> error + 'a" where
  "py_index xs i =
     (if 0 \<le> i \<and> i < int (length xs) then Inr (xs ! nat i)
      else if i < 0 \<and> - int (length xs) \<le> i then Inr (xs ! nat (int (length xs) + i))
      else Inl IndexError)"

text \<open>\<open>MessageStatus.value\<close> and the constructor call \<open>MessageStatus(label)\<close>.\<close>

fun status_value :: "MessageStatus \<Rightarrow> string" where
  "status_value PENDING = ''PENDING''"
| "status_value SUCCESS = ''SUCCESS''"
| "status_value FAILED_MAX_RETRIES = ''FAILED_MAX_RETRIES''"

definition MessageStatus_of :: "pyval \<Rightarrow> error + MessageStatus" where
  "MessageStatus_of v =
     (if v = PStr ''PENDING'' then Inr PENDING
      else if v = PStr ''SUCCESS'' then Inr SUCCESS
      else if v = PStr ''FAILED_MAX_RETRIES'' then Inr FAILED_MAX_RETRIES
      else Inl ValueError)"

text \<open>
  \<open>dataclasses.asdict\<close> copies the field values recursively (lists and dicts are
  rebuilt element by element, everything else is deep-copied).
\<close>

fun asdict_inner :: "pyval \<Rightarrow> pyval" where
  "asdict_inner (PList vs) = PList (map asdict_inner vs)"
| "asdict_inner (PDict kvs) = PDict (map (\<lambda>(k, v). (k, asdict_inner v)) kvs)"
| "asdict_inner v = v"

definition Message_to_dict :: "Message \<Rightarrow> pyval" where
  "Message_to_dict m =
     PDict [(''message_id'', PStr (msg_id m)),
            (''content'', PStr (content m)),
            (''metadata'', (case metadata m of None \<Rightarrow> PNone
                            | Some d \<Rightarrow> asdict_inner (PDict d)))]"

text \<open>
  \<open>Message.from_dict\<close> is \<open>cls(**data)\<close>: an unexpected keyword or a missing required
  field is a TypeError; \<open>metadata\<close> defaults to None. Python does not check the field
  types; a value of another type than the declared one has no counterpart in the typed
  record and is reported as \<open>IllTyped\<close>.
\<close>

definition Message_from_dict :: "pyval \<Rightarrow> error + Message" where
  "Message_from_dict data =
     (case data of
        PDict kvs \<Rightarrow>
          if \<not> list_all (\<lambda>k. k \<in> {''message_id'', ''content'', ''metadata''}) (map fst kvs)
          then Inl TypeError
          else (case (map_of kvs ''message_id'', map_of kvs ''content'') of
                  (Some i, Some c) \<Rightarrow>
                    (case (i, c, map_of kvs ''metadata'') of
                       (PStr i', PStr c', None) \<Rightarrow>
                         Inr \<lparr>msg_id = i', content = c', metadata = None\<rparr>
                     | (PStr i', PStr c', Some PNone) \<Rightarrow>
                         Inr \<lparr>msg_id = i', content = c', metadata = None\<rparr>
                     | (PStr i', PStr c', Some (PDict d)) \<Rightarrow>
                         Inr \<lparr>msg_id = i', content = c', metadata = Some d\<rparr>
                     | _ \<Rightarrow> Inl IllTyped)
                | _ \<Rightarrow> Inl TypeError)
      | _ \<Rightarrow> Inl TypeError)"

definition to_dict :: "MessageState \<Rightarrow> pyval" where
  "to_dict s =
     PDict [(''message_id'', PStr (message_id s)),
            (''message'', Message_to_dict (message s)),
            (''attempt_count'', PInt (attempt_count s)),
            (''next_retry_at'', PFloat (next_retry_at s)),
            (''status'', PStr (status_value (status s))),
            (''created_at'', PFloat (created_at s)),
            (''updated_at'', PFloat (updated_at s))]"

text \<open>\<open>data[key]\<close> on a dict; subscripting anything else is a TypeError.\<close>

definition getitem :: "pyval \<Rightarrow> string \<Rightarrow> error + pyval" where
  "getitem data k =
     (case data of
        PDict kvs \<Rightarrow> (case map_of kvs k of None \<Rightarrow> Inl KeyError | Some v \<Rightarrow> Inr v)
      | _ \<Rightarrow> Inl TypeError)"

definition as_str :: "pyval \<Rightarrow> error + string" where
  "as_str v = (case v of PStr s \<Rightarrow> Inr s | _ \<Rightarrow> Inl IllTyped)"

definition as_int :: "pyval \<Rightarrow> error + int" where
  "as_int v = (case v of PInt i \<Rightarrow> Inr i | _ \<Rightarrow> Inl IllTyped)"

definition as_float :: "pyval \<Rightarrow> error + real" where
  "as_float v = (case v of PFloat r \<Rightarrow> Inr r | PInt i \<Rightarrow> Inr (of_int i) | _ \<Rightarrow> Inl IllTyped)"

text \<open>Sequencing of fallible steps: the first error is the result.\<close>

definition bind_err :: "error + 'a \<Rightarrow> ('a \<Rightarrow> error + 'b) \<Rightarrow> error + 'b" where
  "bind_err r f = (case r of Inl e \<Rightarrow> Inl e | Inr x \<Rightarrow> f x)"

text \<open>
  \<open>MessageState.from_dict\<close>: the keyword arguments are evaluated in the order written
  in the source, so the first failing one decides the exception.
\<close>

definition from_dict :: "pyval \<Rightarrow> error + MessageState" where
  "from_dict data =
     bind_err (bind_err (getitem data ''message_id'') as_str) (\<lambda>i.
     bind_err (bind_err (getitem data ''message'') Message_from_dict) (\<lambda>m.
     bind_err (bind_err (getitem data ''attempt_count'') as_int) (\<lambda>a.
     bind_err (bind_err (getitem data ''next_retry_at'') as_float) (\<lambda>n.
     bind_err (bind_err (getitem data ''status'') MessageStatus_of) (\<lambda>st.
     bind_err (bind_err (getitem data ''created_at'') as_float) (\<lambda>c.
     bind_err (bind_err (getitem data ''updated_at'') as_float) (\<lambda>u.
       Inr \<lparr>message_id = i, message = m, attempt_count = a, next_retry_at = n,
            status = st, created_at = c, updated_at = u\<rparr>)))))))"

text \<open>
  JSON text. \<open>json.dumps\<close> and \<open>json.loads\<close> belong to the Python library; a document
  is represented by the value it denotes, and \<open>Malformed\<close> stands for every text that
  \<open>json.loads\<close> rejects.
\<close>

datatype json_text = Malformed | Document pyval

definition json_dumps :: "pyval \<Rightarrow> json_text" where
  "json_dumps v = Document v"

definition json_loads :: "json_text \<Rightarrow> error + pyval" where
  "json_loads t = (case t of Malformed \<Rightarrow> Inl JSONDecodeError | Document v \<Rightarrow> Inr v)"

definition to_json :: "MessageState \<Rightarrow> json_text" where
  "to_json s = json_dumps (to_dict s)"

definition from_json :: "json_text \<Rightarrow> error + MessageState" where
  "from_json json_str = bind_err (json_loads json_str) from_dict"

section \<open>The outside world: clock, send function, object store\<close>

text \<open>
  The result of one call of the injected send function: it returns a boolean or raises.
\<close>

datatype outcome = Returned bool | Raised

text \<open>Calls of the S3 client, in the order they are made.\<close>

datatype s3_call =
    PutObject string json_text
  | GetObject string
  | DeleteObject string
  | ListObjectsV2 string nat
  | ListPage string

text \<open>
  Everything the scheduler cannot decide itself is an oracle of the environment:
  \<^item> \<open>clock env n\<close> is the value of the \<open>n\<close>-th reading of the wall clock (\<open>time.time()\<close>),
    \<open>utcnow_isoformat env n\<close> the text of \<open>datetime.utcnow().isoformat()\<close> when it is
    the \<open>n\<close>-th reading;
  \<^item> \<open>send_function env n m\<close> is what the \<open>n\<close>-th call of the send function does;
  \<^item> \<open>s3_fault env n c\<close> says that the \<open>n\<close>-th call of the S3 client raises;
  \<^item> \<open>s3_clock env n\<close> is the LastModified stamp the store gives to an object written
    by the \<open>n\<close>-th call.
  The three prefixes are those of \<open>Config\<close>.
\<close>

record env =
  clock :: "nat \<Rightarrow> real"
  utcnow_isoformat :: "nat \<Rightarrow> string"
  send_function :: "nat \<Rightarrow> Message \<Rightarrow> outcome"
  s3_fault :: "nat \<Rightarrow> s3_call \<Rightarrow> bool"
  s3_clock :: "nat \<Rightarrow> nat"
  state_prefix :: string
  success_prefix :: string
  failed_prefix :: string

text \<open>
  The record of one call of the send function: the state for which it was made, as it
  was before the call, and the number of clock readings taken until then. The code
  passes \<open>message (sent_state e)\<close> to the send function.
\<close>

record send_event =
  sent_state :: MessageState
  sent_reads :: nat

record stats =
  total_messages :: int
  total_success :: int
  total_failed :: int
  in_progress :: int

text \<open>
  \<open>class SMSScheduler\<close> together with the bucket its persistence layer writes to.
  \<^item> \<open>retry_heap\<close>: the code only uses \<open>heappush\<close>, \<open>heappop\<close> and \<open>retry_heap[0]\<close>, so
    the heap is kept as the sorted list of its pairs: its head is the least pair in
    Python's tuple order, which is what \<open>heapq\<close> guarantees for index 0.
  \<^item> \<open>message_map\<close>: the dict, as an association list.
  \<^item> \<open>bucket\<close>: key, LastModified and body of every object stored.
  \<^item> \<open>s3_calls\<close>, \<open>send_log\<close>, \<open>clock_reads\<close>: the calls made so far to the S3 client, to
    the send function and to the clock.
\<close>

record scheduler =
  retry_heap :: "(real \<times> string) list"
  message_map :: "(string \<times> MessageState) list"
  running :: bool
  stats :: stats
  bucket :: "(string \<times> nat \<times> json_text) list"
  s3_calls :: "s3_call list"
  send_log :: "send_event list"
  clock_reads :: nat

definition heappush :: "(real \<times> string) list \<Rightarrow> real \<times> string \<Rightarrow> (real \<times> string) list" where
  "heappush h x = insort x h"

definition time_time :: "env \<Rightarrow> scheduler \<Rightarrow> real \<times> scheduler" where
  "time_time env s = (clock env (clock_reads s), s\<lparr>clock_reads := Suc (clock_reads s)\<rparr>)"

definition utcnow :: "env \<Rightarrow> scheduler \<Rightarrow> string \<times> scheduler" where
  "utcnow env s =
     (utcnow_isoformat env (clock_reads s), s\<lparr>clock_reads := Suc (clock_reads s)\<rparr>)"

subsection \<open>The S3 client\<close>

definition s3_log :: "s3_call \<Rightarrow> scheduler \<Rightarrow> scheduler" where
  "s3_log c s = s\<lparr>s3_calls := s3_calls s @ [c]\<rparr>"

definition s3_raises :: "env \<Rightarrow> s3_call \<Rightarrow> scheduler \<Rightarrow> bool" where
  "s3_raises env c s = s3_fault env (length (s3_calls s)) c"

definition put_object :: "env \<Rightarrow> string \<Rightarrow> json_text \<Rightarrow> scheduler \<Rightarrow> (error + unit) \<times> scheduler" where
  "put_object env key body s =
     (if s3_raises env (PutObject key body) s
      then (Inl ClientError, s3_log (PutObject key body) s)
      else (Inr (),
            s3_log (PutObject key body)
              (s\<lparr>bucket := AList.update key (s3_clock env (length (s3_calls s)), body)
                              (bucket s)\<rparr>)))"

definition get_object :: "env \<Rightarrow> string \<Rightarrow> scheduler \<Rightarrow> (error + json_text) \<times> scheduler" where
  "get_object env key s =
     (if s3_raises env (GetObject key) s then (Inl ClientError, s3_log (GetObject key) s)
      else (case map_of (bucket s) key of
              None \<Rightarrow> (Inl NoSuchKey, s3_log (GetObject key) s)
            | Some (lm, body) \<Rightarrow> (Inr body, s3_log (GetObject key) s)))"

definition delete_object :: "env \<Rightarrow> string \<Rightarrow> scheduler \<Rightarrow> (error + unit) \<times> scheduler" where
  "delete_object env key s =
     (if s3_raises env (DeleteObject key) s
      then (Inl ClientError, s3_log (DeleteObject key) s)
      else (Inr (), s3_log (DeleteObject key) (s\<lparr>bucket := AList.delete key (bucket s)\<rparr>)))"

text \<open>
  The keys under a prefix with their LastModified stamps, in the order S3 lists them:
  ascending in the binary order of the key names.
\<close>

definition has_prefix :: "string \<Rightarrow> string \<Rightarrow> bool" where
  "has_prefix p k = (take (length p) k = p)"

definition listing :: "string \<Rightarrow> (string \<times> nat \<times> json_text) list \<Rightarrow> (string \<times> nat) list" where
  "listing p b = sort_key fst (map (\<lambda>(k, lm, body). (k, lm)) (filter (\<lambda>(k, v). has_prefix p k) b))"

text \<open>
  \<open>list_objects_v2(Prefix, MaxKeys)\<close>: one response, holding the first \<open>MaxKeys\<close> keys
  of the listing and never more than 1000.
\<close>

definition list_objects_v2 ::
  "env \<Rightarrow> string \<Rightarrow> nat \<Rightarrow> scheduler \<Rightarrow> (error + (string \<times> nat) list) \<times> scheduler" where
  "list_objects_v2 env p max_keys s =
     (if s3_raises env (ListObjectsV2 p max_keys) s
      then (Inl ClientError, s3_log (ListObjectsV2 p max_keys) s)
      else (Inr (take (min max_keys 1000) (listing p (bucket s))),
            s3_log (ListObjectsV2 p max_keys) s))"

text \<open>One request of the paginator: each page is a call of its own, which may fail.\<close>

definition list_page :: "env \<Rightarrow> string \<Rightarrow> scheduler \<Rightarrow> (error + unit) \<times> scheduler" where
  "list_page env p s =
     (if s3_raises env (ListPage p) s then (Inl ClientError, s3_log (ListPage p) s)
      else (Inr (), s3_log (ListPage p) s))"

section \<open>Persistence layer (persistence.py)\<close>

definition state_key :: "env \<Rightarrow> string \<Rightarrow> string" where
  "state_key env mid = state_prefix env @ ''/'' @ mid @ ''.json''"

definition log_key :: "string \<Rightarrow> string \<Rightarrow> string \<Rightarrow> string" where
  "log_key p timestamp mid = p @ ''/'' @ timestamp @ ''_'' @ mid @ ''.json''"

text \<open>\<open>save_message_state\<close>: the exception of a failed write is logged and raised again.\<close>

definition save_message_state :: "env \<Rightarrow> MessageState \<Rightarrow> scheduler \<Rightarrow> (error + unit) \<times> scheduler" where
  "save_message_state env state s =
     put_object env (state_key env (message_id state)) (to_json state) s"

text \<open>\<open>_delete_state\<close> swallows every exception.\<close>

definition delete_state :: "env \<Rightarrow> string \<Rightarrow> scheduler \<Rightarrow> scheduler" where
  "delete_state env mid s = snd (delete_object env (state_key env mid) s)"

definition mark_success ::
  "env \<Rightarrow> string \<Rightarrow> MessageState \<Rightarrow> scheduler \<Rightarrow> (error + unit) \<times> scheduler" where
  "mark_success env mid state s =
     (let (timestamp, s1) = utcnow env s
      in case put_object env (log_key (success_prefix env) timestamp mid) (to_json state) s1 of
           (Inl e, s2) \<Rightarrow> (Inl e, s2)
         | (Inr u, s2) \<Rightarrow> (Inr (), delete_state env mid s2))"

definition mark_failed ::
  "env \<Rightarrow> string \<Rightarrow> MessageState \<Rightarrow> scheduler \<Rightarrow> (error + unit) \<times> scheduler" where
  "mark_failed env mid state s =
     (let (timestamp, s1) = utcnow env s
      in case put_object env (log_key (failed_prefix env) timestamp mid) (to_json state) s1 of
           (Inl e, s2) \<Rightarrow> (Inl e, s2)
         | (Inr u, s2) \<Rightarrow> (Inr (), delete_state env mid s2))"

text \<open>
  The inner loop of \<open>load_all_pending_states\<close> over the objects of one page: a record
  that cannot be fetched or decoded is logged and skipped.
\<close>

fun load_objects ::
  "env \<Rightarrow> string list \<Rightarrow> MessageState list \<Rightarrow> scheduler \<Rightarrow> MessageState list \<times> scheduler" where
  "load_objects env [] states s = (states, s)"
| "load_objects env (key # keys) states s =
     (case get_object env key s of
        (Inl e, s1) \<Rightarrow> load_objects env keys states s1
      | (Inr body, s1) \<Rightarrow>
          (case from_json body of
             Inl e \<Rightarrow> load_objects env keys states s1
           | Inr state \<Rightarrow>
               load_objects env keys
                 (if status state = PENDING then states @ [state] else states) s1))"

text \<open>
  The outer loop over the pages of the paginator (1000 keys a page; a prefix without
  objects gives one page without \<open>Contents\<close>).
\<close>

function load_pages ::
  "env \<Rightarrow> string list \<Rightarrow> MessageState list \<Rightarrow> scheduler
     \<Rightarrow> (error + MessageState list) \<times> scheduler" where
  "load_pages env keys states s =
     (case list_page env (state_prefix env) s of
        (Inl e, s1) \<Rightarrow> (Inl e, s1)
      | (Inr u, s1) \<Rightarrow>
          (case load_objects env (take 1000 keys) states s1 of
             (states', s2) \<Rightarrow>
               if length keys \<le> 1000 then (Inr states', s2)
               else load_pages env (drop 1000 keys) states' s2))"
  by pat_completeness auto
termination
  by (relation "measure (\<lambda>(env, keys, states, s). length keys)") auto

declare load_pages.simps [simp del]

definition load_all_pending_states :: "env \<Rightarrow> scheduler \<Rightarrow> MessageState list \<times> scheduler" where
  "load_all_pending_states env s =
     (case load_pages env (map fst (listing (state_prefix env) (bucket s))) [] s of
        (Inl e, s1) \<Rightarrow> ([], s1)
      | (Inr states, s1) \<Rightarrow> (states, s1))"

text \<open>\<open>sorted(xs, key=LastModified, reverse=True)\<close>: stable, equal keys keep their order.\<close>

definition sorted_reverse :: "(string \<times> nat) list \<Rightarrow> (string \<times> nat) list" where
  "sorted_reverse xs = rev (sort_key snd (rev xs))"

fun load_recent ::
  "env \<Rightarrow> string list \<Rightarrow> pyval list \<Rightarrow> scheduler \<Rightarrow> pyval list \<times> scheduler" where
  "load_recent env [] results s = (results, s)"
| "load_recent env (key # keys) results s =
     (case get_object env key s of
        (Inl e, s1) \<Rightarrow> load_recent env keys results s1
      | (Inr body, s1) \<Rightarrow>
          (case json_loads body of
             Inl e \<Rightarrow> load_recent env keys results s1
           | Inr v \<Rightarrow> load_recent env keys (results @ [v]) s1))"

definition get_recent_from_prefix ::
  "env \<Rightarrow> string \<Rightarrow> nat \<Rightarrow> scheduler \<Rightarrow> pyval list \<times> scheduler" where
  "get_recent_from_prefix env p limit s =
     (case list_objects_v2 env p limit s of
        (Inl e, s1) \<Rightarrow> ([], s1)
      | (Inr contents, s1) \<Rightarrow>
          if contents = [] then ([], s1)
          else load_recent env (map fst (take limit (sorted_reverse contents))) [] s1)"

definition get_recent_success :: "env \<Rightarrow> nat \<Rightarrow> scheduler \<Rightarrow> pyval list \<times> scheduler" where
  "get_recent_success env limit s = get_recent_from_prefix env (success_prefix env) limit s"

definition get_recent_failed :: "env \<Rightarrow> nat \<Rightarrow> scheduler \<Rightarrow> pyval list \<times> scheduler" where
  "get_recent_failed env limit s = get_recent_from_prefix env (failed_prefix env) limit s"

section \<open>Scheduler (scheduler.py)\<close>

text \<open>\<open>SMSScheduler.__init__\<close>, over a bucket that holds the objects \<open>b\<close>.\<close>

definition init :: "(string \<times> nat \<times> json_text) list \<Rightarrow> scheduler" where
  "init b =
     \<lparr>retry_heap = [], message_map = [], running = False,
      stats = \<lparr>total_messages = 0, total_success = 0, total_failed = 0, in_progress = 0\<rparr>,
      bucket = b, s3_calls = [], send_log = [], clock_reads = 0\<rparr>"

text \<open>
  A \<open>MessageState\<close> is a mutable object that the index refers to. In the functions
  below \<open>state\<close> is the current value of the object and \<open>k\<close> the key under which the
  index holds it; \<open>sync\<close> makes an assignment to a field of the object visible in the
  index (and does nothing once the object has been removed from it).
\<close>

definition sync :: "string \<Rightarrow> MessageState \<Rightarrow> scheduler \<Rightarrow> scheduler" where
  "sync k state s = s\<lparr>message_map := AList.map_entry k (\<lambda>_. state) (message_map s)\<rparr>"

text \<open>
  \<open>_attempt_send\<close>: both the normal path and the exception handler increment
  \<open>attempt_count\<close> and read the clock for \<open>updated_at\<close>.
\<close>

definition attempt_send ::
  "env \<Rightarrow> string \<Rightarrow> MessageState \<Rightarrow> scheduler \<Rightarrow> bool \<times> MessageState \<times> scheduler" where
  "attempt_send env k state s =
     (let r = send_function env (length (send_log s)) (message state);
          s1 = s\<lparr>send_log := send_log s @ [\<lparr>sent_state = state, sent_reads = clock_reads s\<rparr>]\<rparr>;
          (t, s2) = time_time env s1;
          state' = state\<lparr>attempt_count := attempt_count state + 1, updated_at := t\<rparr>
      in ((case r of Returned success \<Rightarrow> success | Raised \<Rightarrow> False), state', sync k state' s2))"

definition schedule_next_retry ::
  "env \<Rightarrow> string \<Rightarrow> MessageState \<Rightarrow> scheduler \<Rightarrow> error + scheduler" where
  "schedule_next_retry env k state s =
     (if attempt_count state \<ge> int (length RETRY_SCHEDULE) then Inr s
      else (case py_index RETRY_SCHEDULE (attempt_count state) of
              Inl e \<Rightarrow> Inl e
            | Inr delay \<Rightarrow>
                (let state' = state\<lparr>next_retry_at := created_at state + delay\<rparr>;
                     s1 = sync k state' s;
                     s2 = s1\<lparr>retry_heap :=
                             heappush (retry_heap s1) (next_retry_at state', message_id state')\<rparr>
                 in Inr (snd (save_message_state env state' s2)))))"

definition handle_success ::
  "env \<Rightarrow> string \<Rightarrow> MessageState \<Rightarrow> scheduler \<Rightarrow> error + scheduler" where
  "handle_success env k state s =
     (let (t, s1) = time_time env s;
          state' = state\<lparr>status := SUCCESS, updated_at := t\<rparr>;
          s2 = sync k state' s1
      in if map_of (message_map s2) (message_id state') = None then Inl KeyError
         else (let s3 = s2\<lparr>message_map := AList.delete (message_id state') (message_map s2)\<rparr>;
                   s4 = s3\<lparr>stats := (stats s3)\<lparr>total_success := total_success (stats s3) + 1,
                                                in_progress := in_progress (stats s3) - 1\<rparr>\<rparr>
               in Inr (snd (mark_success env (message_id state') state' s4))))"

definition handle_failure ::
  "env \<Rightarrow> string \<Rightarrow> MessageState \<Rightarrow> scheduler \<Rightarrow> error + scheduler" where
  "handle_failure env k state s =
     (let (t, s1) = time_time env s;
          state' = state\<lparr>status := FAILED_MAX_RETRIES, updated_at := t\<rparr>;
          s2 = sync k state' s1
      in if map_of (message_map s2) (message_id state') = None then Inl KeyError
         else (let s3 = s2\<lparr>message_map := AList.delete (message_id state') (message_map s2)\<rparr>;
                   s4 = s3\<lparr>stats := (stats s3)\<lparr>total_failed := total_failed (stats s3) + 1,
                                                in_progress := in_progress (stats s3) - 1\<rparr>\<rparr>
               in Inr (snd (mark_failed env (message_id state') state' s4))))"

definition newMessage :: "env \<Rightarrow> Message \<Rightarrow> scheduler \<Rightarrow> error + scheduler" where
  "newMessage env m s =
     (let (current_time, s1) = time_time env s;
          state = \<lparr>message_id = msg_id m, message = m, attempt_count = 0,
                   next_retry_at = current_time, status = PENDING,
                   created_at = current_time, updated_at = current_time\<rparr>;
          s2 = s1\<lparr>message_map := AList.update (msg_id m) state (message_map s1)\<rparr>;
          s3 = s2\<lparr>stats := (stats s2)\<lparr>total_messages := total_messages (stats s2) + 1,
                                       in_progress := in_progress (stats s2) + 1\<rparr>\<rparr>;
          (success, state', s4) = attempt_send env (msg_id m) state s3
      in if success then handle_success env (msg_id m) state' s4
         else schedule_next_retry env (msg_id m) state' s4)"

text \<open>
  One round of the \<open>while\<close> loop of \<open>wakeup\<close>. \<open>None\<close>: the loop ends (the heap is empty
  or its least entry is not due). \<open>Some (Inr s')\<close>: the round ran and left \<open>s'\<close>.
  \<open>Some (Inl e)\<close>: the round raised \<open>e\<close>, which leaves \<open>wakeup\<close>.
\<close>

definition wakeup_round :: "env \<Rightarrow> real \<Rightarrow> scheduler \<Rightarrow> (error + scheduler) option" where
  "wakeup_round env current_time s =
     (case retry_heap s of
        [] \<Rightarrow> None
      | (next_time, mid) # rest \<Rightarrow>
          if next_time > current_time then None
          else (let s1 = s\<lparr>retry_heap := rest\<rparr>
                in case map_of (message_map s1) mid of
                     None \<Rightarrow> Some (Inr s1)
                   | Some state \<Rightarrow>
                       if status state \<noteq> PENDING then Some (Inr s1)
                       else (let (success, state', s2) = attempt_send env mid state s1
                             in if success then Some (handle_success env mid state' s2)
                                else if attempt_count state' \<ge> MAX_ATTEMPTS
                                     then Some (handle_failure env mid state' s2)
                                     else Some (schedule_next_retry env mid state' s2))))"

text \<open>The quantity that every round of the loop decreases.\<close>

definition rounds_left :: "scheduler \<Rightarrow> nat" where
  "rounds_left s =
     length (retry_heap s) + sum_list (map (\<lambda>(k, st). nat (6 - attempt_count st)) (message_map s))"




section \<open>Frame lemmas and termination of the wakeup loop\<close>

lemma s3_log_frame [simp]:
  "retry_heap (s3_log c s) = retry_heap s"
  "message_map (s3_log c s) = message_map s"
  "running (s3_log c s) = running s"
  "stats (s3_log c s) = stats s"
  "send_log (s3_log c s) = send_log s"
  "clock_reads (s3_log c s) = clock_reads s"
  "bucket (s3_log c s) = bucket s"
  "s3_calls (s3_log c s) = s3_calls s @ [c]"
  by (simp_all add: s3_log_def)

lemma put_object_frame [simp]:
  "retry_heap (snd (put_object env key body s)) = retry_heap s"
  "message_map (snd (put_object env key body s)) = message_map s"
  "running (snd (put_object env key body s)) = running s"
  "stats (snd (put_object env key body s)) = stats s"
  "send_log (snd (put_object env key body s)) = send_log s"
  "clock_reads (snd (put_object env key body s)) = clock_reads s"
  by (simp_all add: put_object_def)

lemma delete_state_frame [simp]:
  "retry_heap (delete_state env mid s) = retry_heap s"
  "message_map (delete_state env mid s) = message_map s"
  "running (delete_state env mid s) = running s"
  "stats (delete_state env mid s) = stats s"
  "send_log (delete_state env mid s) = send_log s"
  "clock_reads (delete_state env mid s) = clock_reads s"
  by (simp_all add: delete_state_def delete_object_def)

lemma save_message_state_frame [simp]:
  "retry_heap (snd (save_message_state env st s)) = retry_heap s"
  "message_map (snd (save_message_state env st s)) = message_map s"
  "running (snd (save_message_state env st s)) = running s"
  "stats (snd (save_message_state env st s)) = stats s"
  "send_log (snd (save_message_state env st s)) = send_log s"
  "clock_reads (snd (save_message_state env st s)) = clock_reads s"
  by (simp_all add: save_message_state_def)

lemma utcnow_frame [simp]:
  "retry_heap (snd (utcnow env s)) = retry_heap s"
  "message_map (snd (utcnow env s)) = message_map s"
  "running (snd (utcnow env s)) = running s"
  "stats (snd (utcnow env s)) = stats s"
  "send_log (snd (utcnow env s)) = send_log s"
  "clock_reads (snd (utcnow env s)) = Suc (clock_reads s)"
  "bucket (snd (utcnow env s)) = bucket s"
  "s3_calls (snd (utcnow env s)) = s3_calls s"
  by (simp_all add: utcnow_def)

lemma time_time_frame [simp]:
  "retry_heap (snd (time_time env s)) = retry_heap s"
  "message_map (snd (time_time env s)) = message_map s"
  "running (snd (time_time env s)) = running s"
  "stats (snd (time_time env s)) = stats s"
  "send_log (snd (time_time env s)) = send_log s"
  "clock_reads (snd (time_time env s)) = Suc (clock_reads s)"
  "bucket (snd (time_time env s)) = bucket s"
  "s3_calls (snd (time_time env s)) = s3_calls s"
  "fst (time_time env s) = clock env (clock_reads s)"
  by (simp_all add: time_time_def)

lemma snd_eqD: "p = (a, b) \<Longrightarrow> b = snd p"
  by simp

lemma mark_success_frame [simp]:
  "retry_heap (snd (mark_success env mid st s)) = retry_heap s"
  "message_map (snd (mark_success env mid st s)) = message_map s"
  "running (snd (mark_success env mid st s)) = running s"
  "stats (snd (mark_success env mid st s)) = stats s"
  "send_log (snd (mark_success env mid st s)) = send_log s"
  "clock_reads (snd (mark_success env mid st s)) = Suc (clock_reads s)"
  by (auto simp: mark_success_def Let_def split: prod.splits sum.splits dest!: snd_eqD)

lemma mark_failed_frame [simp]:
  "retry_heap (snd (mark_failed env mid st s)) = retry_heap s"
  "message_map (snd (mark_failed env mid st s)) = message_map s"
  "running (snd (mark_failed env mid st s)) = running s"
  "stats (snd (mark_failed env mid st s)) = stats s"
  "send_log (snd (mark_failed env mid st s)) = send_log s"
  "clock_reads (snd (mark_failed env mid st s)) = Suc (clock_reads s)"
  by (auto simp: mark_failed_def Let_def split: prod.splits sum.splits dest!: snd_eqD)


definition weight :: "(string \<times> MessageState) list \<Rightarrow> nat" where
  "weight m = sum_list (map (\<lambda>(k, st). nat (6 - attempt_count st)) m)"

lemma rounds_left_alt: "rounds_left s = length (retry_heap s) + weight (message_map s)"
  by (simp add: rounds_left_def weight_def)

lemma weight_delete: "weight (AList.delete k m) \<le> weight m"
  by (induction m) (auto simp: weight_def)

lemma weight_map_entry_le:
  "map_of m k = Some st \<Longrightarrow> attempt_count st \<le> attempt_count st'
     \<Longrightarrow> weight (AList.map_entry k (\<lambda>_. st') m) \<le> weight m"
  by (induction m) (auto simp: weight_def)

lemma weight_map_entry_less:
  "map_of m k = Some st \<Longrightarrow> attempt_count st < attempt_count st' \<Longrightarrow> attempt_count st' < 6
     \<Longrightarrow> weight (AList.map_entry k (\<lambda>_. st') m) < weight m"
  by (induction m) (auto simp: weight_def)

lemma map_of_map_entry_same:
  "map_of m k = Some st \<Longrightarrow> map_of (AList.map_entry k (\<lambda>_. st') m) k = Some st'"
  by (simp add: map_of_map_entry)

lemma attempt_send_eq:
  "attempt_send env k st s =
     ((case send_function env (length (send_log s)) (message st) of
         Returned b \<Rightarrow> b | Raised \<Rightarrow> False),
      st\<lparr>attempt_count := attempt_count st + 1, updated_at := clock env (clock_reads s)\<rparr>,
      s\<lparr>send_log := send_log s @ [\<lparr>sent_state = st, sent_reads = clock_reads s\<rparr>],
        clock_reads := Suc (clock_reads s),
        message_map := AList.map_entry k
           (\<lambda>_. st\<lparr>attempt_count := attempt_count st + 1, updated_at := clock env (clock_reads s)\<rparr>)
           (message_map s)\<rparr>)"
  by (simp add: attempt_send_def time_time_def sync_def Let_def)

lemma handle_success_measure:
  assumes "handle_success env k st s = Inr s'" and "map_of (message_map s) k = Some st0"
    and "attempt_count st0 \<le> attempt_count st"
  shows "retry_heap s' = retry_heap s" and "weight (message_map s') \<le> weight (message_map s)"
proof -
  let ?st = "st\<lparr>status := SUCCESS, updated_at := clock env (clock_reads s)\<rparr>"
  from assms(1) have s': "s' = snd (mark_success env (message_id st) ?st
       ((sync k ?st (snd (time_time env s)))\<lparr>message_map := AList.delete (message_id st)
           (AList.map_entry k (\<lambda>_. ?st) (message_map s)),
         stats := (stats s)\<lparr>total_success := total_success (stats s) + 1,
                            in_progress := in_progress (stats s) - 1\<rparr>\<rparr>))"
    by (auto simp: handle_success_def Let_def sync_def time_time_def split: if_splits prod.splits)
  show "retry_heap s' = retry_heap s"
    by (simp add: s' sync_def)
  have "weight (message_map s') \<le> weight (AList.map_entry k (\<lambda>_. ?st) (message_map s))"
    by (simp add: s' weight_delete)
  also have "\<dots> \<le> weight (message_map s)"
    using assms(2,3) by (intro weight_map_entry_le[where st = st0]) auto
  finally show "weight (message_map s') \<le> weight (message_map s)" .
qed

lemma handle_failure_measure:
  assumes "handle_failure env k st s = Inr s'" and "map_of (message_map s) k = Some st0"
    and "attempt_count st0 \<le> attempt_count st"
  shows "retry_heap s' = retry_heap s" and "weight (message_map s') \<le> weight (message_map s)"
proof -
  let ?st = "st\<lparr>status := FAILED_MAX_RETRIES, updated_at := clock env (clock_reads s)\<rparr>"
  from assms(1) have s': "s' = snd (mark_failed env (message_id st) ?st
       ((sync k ?st (snd (time_time env s)))\<lparr>message_map := AList.delete (message_id st)
           (AList.map_entry k (\<lambda>_. ?st) (message_map s)),
         stats := (stats s)\<lparr>total_failed := total_failed (stats s) + 1,
                            in_progress := in_progress (stats s) - 1\<rparr>\<rparr>))"
    by (auto simp: handle_failure_def Let_def sync_def time_time_def split: if_splits prod.splits)
  show "retry_heap s' = retry_heap s"
    by (simp add: s' sync_def)
  have "weight (message_map s') \<le> weight (AList.map_entry k (\<lambda>_. ?st) (message_map s))"
    by (simp add: s' weight_delete)
  also have "\<dots> \<le> weight (message_map s)"
    using assms(2,3) by (intro weight_map_entry_le[where st = st0]) auto
  finally show "weight (message_map s') \<le> weight (message_map s)" .
qed

lemma schedule_next_retry_measure:
  assumes "schedule_next_retry env k st s = Inr s'" and "map_of (message_map s) k = Some st0"
    and "attempt_count st0 \<le> attempt_count st" and "attempt_count st < 6"
  shows "length (retry_heap s') = Suc (length (retry_heap s))"
    and "weight (message_map s') \<le> weight (message_map s)"
proof -
  obtain delay where d: "py_index RETRY_SCHEDULE (attempt_count st) = Inr delay"
    using assms(1,4) by (auto simp: schedule_next_retry_def RETRY_SCHEDULE_def split: sum.splits if_splits)
  let ?st = "st\<lparr>next_retry_at := created_at st + delay\<rparr>"
  from assms(1,4) d have s': "s' = snd (save_message_state env ?st
      ((sync k ?st s)\<lparr>retry_heap := heappush (retry_heap s) (created_at st + delay, message_id st)\<rparr>))"
    by (auto simp: schedule_next_retry_def Let_def sync_def RETRY_SCHEDULE_def)
  show "length (retry_heap s') = Suc (length (retry_heap s))"
    by (simp add: s' heappush_def)
  have "message_map s' = AList.map_entry k (\<lambda>_. ?st) (message_map s)"
    by (simp add: s' sync_def)
  then show "weight (message_map s') \<le> weight (message_map s)"
    using assms(2,3) weight_map_entry_le[where st = st0 and st' = ?st and m = "message_map s" and k = k]
    by simp
qed

lemma wakeup_round_decreases:
  assumes "wakeup_round env current_time s = Some (Inr s')"
  shows "rounds_left s' < rounds_left s"
proof (cases "retry_heap s")
  case Nil
  with assms show ?thesis by (simp add: wakeup_round_def)
next
  case (Cons e rest)
  obtain next_time mid where e: "e = (next_time, mid)" by (cases e)
  let ?s1 = "s\<lparr>retry_heap := rest\<rparr>"
  from assms Cons e have due: "\<not> next_time > current_time"
    by (auto simp: wakeup_round_def split: if_splits)
  show ?thesis
  proof (cases "map_of (message_map s) mid")
    case None
    with assms Cons e due have "s' = ?s1" by (simp add: wakeup_round_def)
    then show ?thesis using Cons by (simp add: rounds_left_alt)
  next
    case (Some st)
    show ?thesis
    proof (cases "status st = PENDING")
      case False
      with assms Cons e due Some have "s' = ?s1" by (simp add: wakeup_round_def)
      then show ?thesis using Cons by (simp add: rounds_left_alt)
    next
      case True
      let ?st' = "st\<lparr>attempt_count := attempt_count st + 1, updated_at := clock env (clock_reads s)\<rparr>"
      obtain b s2 where a: "attempt_send env mid st ?s1 = (b, ?st', s2)"
        by (simp add: attempt_send_eq)
      have s2: "retry_heap s2 = rest"
        "message_map s2 = AList.map_entry mid (\<lambda>_. ?st') (message_map s)"
        using a by (auto simp: attempt_send_eq)
      have look: "map_of (message_map s2) mid = Some ?st'"
        using Some by (simp add: s2 map_of_map_entry)
      have w2: "weight (message_map s2) \<le> weight (message_map s)"
        unfolding s2 using Some by (intro weight_map_entry_le[where st = st]) auto
      from assms Cons e due Some True a
      consider (succ) "handle_success env mid ?st' s2 = Inr s'"
        | (fail) "attempt_count ?st' \<ge> 6" "handle_failure env mid ?st' s2 = Inr s'"
        | (retry) "attempt_count ?st' < 6" "schedule_next_retry env mid ?st' s2 = Inr s'"
        by (auto simp: wakeup_round_def MAX_ATTEMPTS_def split: if_splits)
      then show ?thesis
      proof cases
        case succ
        from handle_success_measure[OF succ look] w2 s2 Cons show ?thesis
          by (simp add: rounds_left_alt)
      next
        case fail
        from handle_failure_measure[OF fail(2) look] w2 s2 Cons show ?thesis
          by (simp add: rounds_left_alt)
      next
        case retry
        have "weight (message_map s2) < weight (message_map s)"
          unfolding s2 using Some retry(1) by (intro weight_map_entry_less[where st = st]) auto
        with schedule_next_retry_measure[OF retry(2) look _ retry(1)] s2 Cons show ?thesis
          by (simp add: rounds_left_alt)
      qed
    qed
  qed
qed

text \<open>The \<open>while\<close> loop of \<open>wakeup\<close>.\<close>

function wakeup_loop :: "env \<Rightarrow> real \<Rightarrow> scheduler \<Rightarrow> error + scheduler" where
  "wakeup_loop env current_time s =
     (case wakeup_round env current_time s of
        None \<Rightarrow> Inr s
      | Some (Inl e) \<Rightarrow> Inl e
      | Some (Inr s') \<Rightarrow> wakeup_loop env current_time s')"
  by pat_completeness auto
termination
  by (relation "measure (\<lambda>(env, current_time, s). rounds_left s)")
    (auto simp: wakeup_round_decreases)


declare wakeup_loop.simps [simp del]

definition wakeup :: "env \<Rightarrow> scheduler \<Rightarrow> error + scheduler" where
  "wakeup env s =
     (if \<not> running s then Inr s
      else (let (current_time, s1) = time_time env s in wakeup_loop env current_time s1))"

text \<open>The body of the \<open>for\<close> loop of \<open>_recover_from_s3\<close>.\<close>

definition recover_state :: "real \<Rightarrow> MessageState \<Rightarrow> scheduler \<Rightarrow> scheduler" where
  "recover_state current_time state s =
     (let state' = (if next_retry_at state < current_time
                    then state\<lparr>next_retry_at := current_time\<rparr> else state)
      in s\<lparr>message_map := AList.update (message_id state') state' (message_map s),
           retry_heap := heappush (retry_heap s) (next_retry_at state', message_id state')\<rparr>)"

definition recover_from_s3 :: "env \<Rightarrow> scheduler \<Rightarrow> scheduler" where
  "recover_from_s3 env s =
     (let (pending_states, s1) = load_all_pending_states env s;
          (current_time, s2) = time_time env s1;
          s3 = foldl (\<lambda>s state. recover_state current_time state s) s2 pending_states
      in s3\<lparr>stats := (stats s3)\<lparr>in_progress := int (length pending_states)\<rparr>\<rparr>)"

text \<open>\<open>start\<close> and \<open>stop\<close>; the wakeup thread itself is the caller of \<open>wakeup\<close>.\<close>

definition start :: "env \<Rightarrow> scheduler \<Rightarrow> scheduler" where
  "start env s = (if running s then s else (recover_from_s3 env s)\<lparr>running := True\<rparr>)"

definition stop :: "scheduler \<Rightarrow> scheduler" where
  "stop s = s\<lparr>running := False\<rparr>"

text \<open>
  Runs of the scheduler. Every operation holds the lock from its first to its last
  statement, so a run is a sequence of whole operations; it ends at the first exception.
\<close>

datatype event = Start | Stop | NewMessage Message | Wakeup

fun step :: "env \<Rightarrow> event \<Rightarrow> scheduler \<Rightarrow> error + scheduler" where
  "step env Start s = Inr (start env s)"
| "step env Stop s = Inr (stop s)"
| "step env (NewMessage m) s = newMessage env m s"
| "step env Wakeup s = wakeup env s"

fun run :: "env \<Rightarrow> event list \<Rightarrow> scheduler \<Rightarrow> error + scheduler" where
  "run env [] s = Inr s"
| "run env (e # es) s = (case step env e s of Inl err \<Rightarrow> Inl err | Inr s' \<Rightarrow> run env es s')"



section \<open>Closed forms of the transitions\<close>

lemma map_of_map_entry_None:
  "map_of (AList.map_entry k f m) k' = None \<longleftrightarrow> map_of m k' = None"
  by (auto simp: map_of_map_entry split: option.splits)

lemma delete_map_entry: "AList.delete k (AList.map_entry k f m) = AList.delete k m"
  by (induction m) auto

lemma handle_success_eq:
  "handle_success env k st s =
     (if map_of (message_map s) (message_id st) = None then Inl KeyError
      else Inr (snd (mark_success env (message_id st)
                  (st\<lparr>status := SUCCESS, updated_at := clock env (clock_reads s)\<rparr>)
                  (s\<lparr>clock_reads := Suc (clock_reads s),
                     message_map := AList.delete (message_id st)
                       (AList.map_entry k
                          (\<lambda>_. st\<lparr>status := SUCCESS, updated_at := clock env (clock_reads s)\<rparr>)
                          (message_map s)),
                     stats := (stats s)\<lparr>total_success := total_success (stats s) + 1,
                                        in_progress := in_progress (stats s) - 1\<rparr>\<rparr>))))"
  by (simp add: handle_success_def Let_def sync_def time_time_def map_of_map_entry_None)

lemma handle_failure_eq:
  "handle_failure env k st s =
     (if map_of (message_map s) (message_id st) = None then Inl KeyError
      else Inr (snd (mark_failed env (message_id st)
                  (st\<lparr>status := FAILED_MAX_RETRIES, updated_at := clock env (clock_reads s)\<rparr>)
                  (s\<lparr>clock_reads := Suc (clock_reads s),
                     message_map := AList.delete (message_id st)
                       (AList.map_entry k
                          (\<lambda>_. st\<lparr>status := FAILED_MAX_RETRIES,
                                   updated_at := clock env (clock_reads s)\<rparr>)
                          (message_map s)),
                     stats := (stats s)\<lparr>total_failed := total_failed (stats s) + 1,
                                        in_progress := in_progress (stats s) - 1\<rparr>\<rparr>))))"
  by (simp add: handle_failure_def Let_def sync_def time_time_def map_of_map_entry_None)

lemma schedule_next_retry_eq:
  "schedule_next_retry env k st s =
     (if attempt_count st \<ge> 6 then Inr s
      else case py_index RETRY_SCHEDULE (attempt_count st) of
             Inl e \<Rightarrow> Inl e
           | Inr delay \<Rightarrow>
               Inr (snd (save_message_state env (st\<lparr>next_retry_at := created_at st + delay\<rparr>)
                     (s\<lparr>message_map := AList.map_entry k
                            (\<lambda>_. st\<lparr>next_retry_at := created_at st + delay\<rparr>) (message_map s),
                        retry_heap := heappush (retry_heap s)
                            (created_at st + delay, message_id st)\<rparr>))))"
  by (simp add: schedule_next_retry_def Let_def sync_def RETRY_SCHEDULE_def split: sum.splits)

text \<open>Induction over the rounds of the loop.\<close>

lemma wakeup_loop_total:
  assumes "P s"
    and "\<And>s r. P s \<Longrightarrow> wakeup_round env ct s = Some r \<Longrightarrow> \<exists>s1. r = Inr s1 \<and> P s1"
  shows "\<exists>s'. wakeup_loop env ct s = Inr s' \<and> P s' \<and> wakeup_round env ct s' = None"
  using assms
proof (induction env ct s rule: wakeup_loop.induct)
  case (1 env ct s)
  show ?case
  proof (cases "wakeup_round env ct s")
    case None
    with "1.prems"(1) show ?thesis by (simp add: wakeup_loop.simps)
  next
    case (Some r)
    then obtain s1 where r: "r = Inr s1" "P s1" using "1.prems" by blast
    have "\<exists>s'. wakeup_loop env ct s1 = Inr s' \<and> P s' \<and> wakeup_round env ct s' = None"
      using "1.IH"[OF Some r(1) r(2)] "1.prems"(2) by blast
    with Some r(1) show ?thesis
      by (simp add: wakeup_loop.simps[of env ct s])
  qed
qed

lemma wakeup_loop_invariant:
  assumes "wakeup_loop env ct s = Inr s'" and "P s"
    and "\<And>s r. P s \<Longrightarrow> wakeup_round env ct s = Some (Inr r) \<Longrightarrow> P r"
  shows "P s' \<and> wakeup_round env ct s' = None"
  using assms
proof (induction env ct s rule: wakeup_loop.induct)
  case (1 env ct s)
  show ?case
  proof (cases "wakeup_round env ct s")
    case None
    with "1.prems"(1,2) show ?thesis by (simp add: wakeup_loop.simps)
  next
    case (Some r)
    show ?thesis
    proof (cases r)
      case (Inl e)
      with Some "1.prems"(1) show ?thesis by (simp add: wakeup_loop.simps)
    next
      case (Inr s1)
      with Some "1.prems"(1) have l: "wakeup_loop env ct s1 = Inr s'"
        by (simp add: wakeup_loop.simps[of env ct s])
      have p: "P s1" using "1.prems"(2,3) Some Inr by blast
      show ?thesis using "1.IH"[OF Some Inr l p] "1.prems"(3) by blast
    qed
  qed
qed

section \<open>The statistics\<close>

text \<open>The equation between the four counters.\<close>

definition balanced :: "stats \<Rightarrow> bool" where
  "balanced st \<longleftrightarrow>
     total_messages st = total_success st + total_failed st + in_progress st"






lemma wakeup_round_cases:
  assumes "wakeup_round env ct s = Some r"
  obtains (stale) next_time mid rest where
      "retry_heap s = (next_time, mid) # rest" "next_time \<le> ct"
      "\<forall>st. map_of (message_map s) mid = Some st \<longrightarrow> status st \<noteq> PENDING"
      "r = Inr (s\<lparr>retry_heap := rest\<rparr>)"
  | (attempt) next_time mid rest st b st' s2 where
      "retry_heap s = (next_time, mid) # rest" "next_time \<le> ct"
      "map_of (message_map s) mid = Some st" "status st = PENDING"
      "attempt_send env mid st (s\<lparr>retry_heap := rest\<rparr>) = (b, st', s2)"
      "r = (if b then handle_success env mid st' s2
            else if attempt_count st' \<ge> MAX_ATTEMPTS then handle_failure env mid st' s2
            else schedule_next_retry env mid st' s2)"
proof -
  from assms obtain next_time mid rest where h: "retry_heap s = (next_time, mid) # rest"
    by (cases "retry_heap s") (auto simp: wakeup_round_def)
  from assms h have due: "next_time \<le> ct"
    by (auto simp: wakeup_round_def split: if_splits)
  show thesis
  proof (cases "\<exists>st. map_of (message_map s) mid = Some st \<and> status st = PENDING")
    case False
    with assms h due have "r = Inr (s\<lparr>retry_heap := rest\<rparr>)"
      by (auto simp: wakeup_round_def Let_def split: if_splits option.splits)
    with False h due show thesis by (intro stale) auto
  next
    case True
    then obtain st where st: "map_of (message_map s) mid = Some st" "status st = PENDING" by blast
    obtain b st' s2 where a: "attempt_send env mid st (s\<lparr>retry_heap := rest\<rparr>) = (b, st', s2)"
      by (metis prod_cases3)
    from assms h due st a
    have "r = (if b then handle_success env mid st' s2
            else if attempt_count st' \<ge> MAX_ATTEMPTS then handle_failure env mid st' s2
            else schedule_next_retry env mid st' s2)"
      by (auto simp: wakeup_round_def Let_def split: if_splits)
    with h due st a show thesis by (intro attempt)
  qed
qed




section \<open>Concrete inputs\<close>

definition example_message :: Message where
  "example_message = \<lparr>msg_id = ''m2'', content = ''hi'', metadata = Some [(''bulk_index'', PInt 0)]\<rparr>"

definition example_state :: MessageState where
  "example_state =
     \<lparr>message_id = ''m2'', message = example_message, attempt_count = 1, next_retry_at = 100,
      status = PENDING, created_at = 100, updated_at = 100\<rparr>"

definition example_env :: "outcome \<Rightarrow> env" where
  "example_env r =
     \<lparr>clock = (\<lambda>n. 100 + real n / 2),
      utcnow_isoformat = (\<lambda>n. ''2024-01-01T00:00:00.000000''),
      send_function = (\<lambda>n m. r),
      s3_fault = (\<lambda>n c. False),
      s3_clock = (\<lambda>n. n),
      state_prefix = ''state'', success_prefix = ''success'', failed_prefix = ''failed''\<rparr>"

text \<open>A scheduler constructed over an empty bucket and started.\<close>

definition started :: "env \<Rightarrow> scheduler" where
  "started env = start env (init [])"

lemma started_eq:
  "started env =
     \<lparr>retry_heap = [], message_map = [], running = True,
      stats = \<lparr>total_messages = 0, total_success = 0, total_failed = 0, in_progress = 0\<rparr>,
      bucket = [], s3_calls = [ListPage (state_prefix env)], send_log = [], clock_reads = 1\<rparr>"
  by (simp add: started_def start_def recover_from_s3_def load_all_pending_states_def
      load_pages.simps listing_def list_page_def s3_log_def time_time_def init_def)

section \<open>Serialisation\<close>






section \<open>The state transitions of one attempt\<close>

text \<open>
  Claim C6. One call of \<open>_attempt_send\<close> increments \<open>attempt_count\<close> by exactly one and
  sets \<open>updated_at\<close> to the clock reading, whatever the send function does; the result
  is the boolean the send function returned, and \<open>False\<close> when it raised. The index sees
  the updated object and exactly one call of the send function is recorded.
\<close>

theorem attempt_send_increments:
  "attempt_send env k state s = (success, state', s') \<Longrightarrow>
     state' = state\<lparr>attempt_count := attempt_count state + 1,
                    updated_at := clock env (clock_reads s)\<rparr>
     \<and> success = (case send_function env (length (send_log s)) (message state) of
                    Returned b \<Rightarrow> b | Raised \<Rightarrow> False)
     \<and> map_of (message_map s') k = map_option (\<lambda>_. state') (map_of (message_map s) k)
     \<and> length (send_log s') = Suc (length (send_log s))"
  by (auto simp: attempt_send_eq map_of_map_entry split: option.splits)

theorem attempt_send_increments_witness:
  "\<exists>s'. attempt_send (example_env Raised) ''m2'' example_state (init []) =
        (False, example_state\<lparr>attempt_count := 2, updated_at := 100\<rparr>, s')"
  using attempt_send_increments[of "example_env Raised" "''m2''" example_state "init []"]
  by (auto simp: example_env_def example_state_def init_def attempt_send_eq)

text \<open>
  Claim C2. After a failed attempt with \<open>attempt_count < MAX_ATTEMPTS\<close> (the count
  already incremented), \<open>_schedule_next_retry\<close> returns normally, sets
  \<open>next_retry_at = created_at + RETRY_SCHEDULE[attempt_count]\<close>, pushes the pair
  \<open>(next_retry_at, message_id)\<close> onto the heap and leaves the state PENDING.
\<close>

theorem schedule_next_retry_sets_time:
  assumes "0 \<le> attempt_count state" and "attempt_count state < MAX_ATTEMPTS"
    and "status state = PENDING" and "map_of (message_map s) k = Some state"
  shows "\<exists>s' state'. schedule_next_retry env k state s = Inr s'
           \<and> state' = state\<lparr>next_retry_at :=
                               created_at state + RETRY_SCHEDULE ! nat (attempt_count state)\<rparr>
           \<and> map_of (message_map s') k = Some state'
           \<and> status state' = PENDING
           \<and> retry_heap s' = heappush (retry_heap s) (next_retry_at state', message_id state')
           \<and> (next_retry_at state', message_id state') \<in> set (retry_heap s')"
proof -
  let ?d = "RETRY_SCHEDULE ! nat (attempt_count state)"
  let ?st = "state\<lparr>next_retry_at := created_at state + ?d\<rparr>"
  have idx: "py_index RETRY_SCHEDULE (attempt_count state) = Inr ?d"
    using assms(1,2) by (simp add: py_index_def RETRY_SCHEDULE_def MAX_ATTEMPTS_def Let_def)
  have eq: "schedule_next_retry env k state s =
      Inr (snd (save_message_state env ?st
        ((sync k ?st s)\<lparr>retry_heap := heappush (retry_heap s) (created_at state + ?d, message_id state)\<rparr>)))"
    using assms(2) idx
    by (simp add: schedule_next_retry_def Let_def sync_def MAX_ATTEMPTS_def RETRY_SCHEDULE_def)
  let ?s' = "snd (save_message_state env ?st
        ((sync k ?st s)\<lparr>retry_heap := heappush (retry_heap s) (created_at state + ?d, message_id state)\<rparr>))"
  have m: "map_of (message_map ?s') k = Some ?st"
    using assms(4) by (simp add: sync_def map_of_map_entry)
  have h: "retry_heap ?s' = heappush (retry_heap s) (next_retry_at ?st, message_id ?st)"
    by (simp add: sync_def)
  have i: "(next_retry_at ?st, message_id ?st) \<in> set (retry_heap ?s')"
    unfolding h by (simp add: heappush_def set_insort_key)
  from eq m h i assms(3) show ?thesis
    by (intro exI[where x = "?s'"] exI[where x = ?st]) simp
qed

theorem schedule_next_retry_sets_time_witness:
  "\<exists>s'. schedule_next_retry (example_env (Returned False)) ''m2'' example_state
          ((init [])\<lparr>message_map := [(''m2'', example_state)]\<rparr>) = Inr s'
        \<and> map_of (message_map s') ''m2'' = Some (example_state\<lparr>next_retry_at := 100 + 1/2\<rparr>)
        \<and> retry_heap s' = [(100 + 1/2, ''m2'')]"
  using schedule_next_retry_sets_time[of example_state
      "(init [])\<lparr>message_map := [(''m2'', example_state)]\<rparr>" "''m2''" "example_env (Returned False)"]
  by (auto simp: example_state_def init_def MAX_ATTEMPTS_def RETRY_SCHEDULE_def heappush_def)


lemmas eval_defs = newMessage_def time_time_def utcnow_def attempt_send_def sync_def Let_def
  schedule_next_retry_def handle_success_def handle_failure_def py_index_def RETRY_SCHEDULE_def
  MAX_ATTEMPTS_def save_message_state_def mark_success_def mark_failed_def delete_state_def
  put_object_def delete_object_def get_object_def s3_raises_def s3_log_def state_key_def log_key_def
  heappush_def wakeup_def wakeup_round_def init_def example_env_def example_message_def
  example_state_def


section \<open>Invariants of the statistics\<close>

lemma stop_balanced: "balanced (stats (stop s)) = balanced (stats s)"
  by (simp add: stop_def)













text \<open>\<open>len(self.message_map)\<close>: the number of keys of the index.\<close>

definition len_index :: "scheduler \<Rightarrow> int" where
  "len_index s = int (card (fst ` set (message_map s)))"

text \<open>
  A run of intake, tick and stop events in which no message is taken in under an id that
  the index holds at that moment.
\<close>

fun fresh_intakes :: "env \<Rightarrow> event list \<Rightarrow> scheduler \<Rightarrow> bool" where
  "fresh_intakes env [] s = True"
| "fresh_intakes env (e # es) s =
     ((case e of
         NewMessage m \<Rightarrow> map_of (message_map s) (msg_id m) = None
       | Start \<Rightarrow> False
       | _ \<Rightarrow> True)
      \<and> (case step env e s of Inl err \<Rightarrow> True | Inr s' \<Rightarrow> fresh_intakes env es s'))"

definition counted :: "scheduler \<Rightarrow> bool" where
  "counted s \<longleftrightarrow> in_progress (stats s) = len_index s"

lemma card_keys_delete:
  "map_of m k \<noteq> None \<Longrightarrow> int (card (fst ` set (AList.delete k m))) = int (card (fst ` set m)) - 1"
proof -
  assume "map_of m k \<noteq> None"
  then have k: "k \<in> fst ` set m" by (simp add: map_of_eq_None_iff)
  have "fst ` set (AList.delete k m) = fst ` set m - {k}"
    by (induction m) auto
  moreover have "0 < card (fst ` set m)"
    using k by (auto simp: card_gt_0_iff)
  ultimately show ?thesis
    using k by (simp add: card_Diff_singleton of_nat_diff Suc_leI)
qed

lemma handle_success_counted:
  assumes "handle_success env k st s = Inr s'"
  shows "in_progress (stats s') = in_progress (stats s) - 1"
    and "len_index s' = len_index s - 1"
proof -
  from assms have p: "map_of (message_map s) (message_id st) \<noteq> None"
    by (auto simp: handle_success_eq split: if_splits)
  then have p': "map_of (AList.map_entry k f (message_map s)) (message_id st) \<noteq> None" for f
    by (simp add: map_of_map_entry_None)
  from assms p show "in_progress (stats s') = in_progress (stats s) - 1"
    by (auto simp: handle_success_eq)
  from assms p show "len_index s' = len_index s - 1"
    by (auto simp: handle_success_eq len_index_def card_keys_delete[OF p'] dom_map_entry)
qed

lemma handle_failure_counted:
  assumes "handle_failure env k st s = Inr s'"
  shows "in_progress (stats s') = in_progress (stats s) - 1"
    and "len_index s' = len_index s - 1"
proof -
  from assms have p: "map_of (message_map s) (message_id st) \<noteq> None"
    by (auto simp: handle_failure_eq split: if_splits)
  then have p': "map_of (AList.map_entry k f (message_map s)) (message_id st) \<noteq> None" for f
    by (simp add: map_of_map_entry_None)
  from assms p show "in_progress (stats s') = in_progress (stats s) - 1"
    by (auto simp: handle_failure_eq)
  from assms p show "len_index s' = len_index s - 1"
    by (auto simp: handle_failure_eq len_index_def card_keys_delete[OF p'] dom_map_entry)
qed

lemma schedule_next_retry_counted:
  assumes "schedule_next_retry env k st s = Inr s'"
  shows "in_progress (stats s') = in_progress (stats s)" and "len_index s' = len_index s"
  using assms
  by (auto simp: schedule_next_retry_eq len_index_def dom_map_entry split: if_splits sum.splits)

lemma attempt_send_counted:
  assumes "attempt_send env k st s = (b, st', s')"
  shows "in_progress (stats s') = in_progress (stats s)" and "len_index s' = len_index s"
  using assms by (auto simp: attempt_send_eq len_index_def dom_map_entry)

lemma wakeup_round_counted:
  assumes "wakeup_round env ct s = Some (Inr s')" and "counted s"
  shows "counted s'"
  using assms(1)
proof (cases rule: wakeup_round_cases)
  case (stale next_time mid rest)
  with assms(2) show ?thesis by (simp add: counted_def len_index_def)
next
  case (attempt next_time mid rest st b st' s2)
  have c2: "in_progress (stats s2) = in_progress (stats s)" "len_index s2 = len_index s"
    using attempt_send_counted[OF attempt(5)] by (simp_all add: len_index_def)
  from attempt(6) consider "handle_success env mid st' s2 = Inr s'"
      | "handle_failure env mid st' s2 = Inr s'" | "schedule_next_retry env mid st' s2 = Inr s'"
    by (auto split: if_splits)
  then show ?thesis
  proof cases
    case 1
    from handle_success_counted[OF 1] c2 assms(2) show ?thesis by (simp add: counted_def)
  next
    case 2
    from handle_failure_counted[OF 2] c2 assms(2) show ?thesis by (simp add: counted_def)
  next
    case 3
    from schedule_next_retry_counted[OF 3] c2 assms(2) show ?thesis by (simp add: counted_def)
  qed
qed

lemma wakeup_counted:
  assumes "wakeup env s = Inr s'" and "counted s"
  shows "counted s'"
proof (cases "running s")
  case False
  with assms show ?thesis by (simp add: wakeup_def)
next
  case True
  with assms(1) have l: "wakeup_loop env (clock env (clock_reads s))
      (s\<lparr>clock_reads := Suc (clock_reads s)\<rparr>) = Inr s'"
    by (simp add: wakeup_def time_time_def)
  have c: "counted (s\<lparr>clock_reads := Suc (clock_reads s)\<rparr>)"
    using assms(2) by (simp add: counted_def len_index_def)
  from wakeup_loop_invariant[where P = counted, OF l c] wakeup_round_counted
  show ?thesis by blast
qed

lemma newMessage_counted:
  assumes "newMessage env m s = Inr s'" and "counted s"
    and "map_of (message_map s) (msg_id m) = None"
  shows "counted s'"
proof -
  let ?st = "\<lparr>message_id = msg_id m, message = m, attempt_count = 0,
          next_retry_at = clock env (clock_reads s), status = PENDING,
          created_at = clock env (clock_reads s), updated_at = clock env (clock_reads s)\<rparr>"
  let ?s3 = "s\<lparr>clock_reads := Suc (clock_reads s),
      message_map := AList.update (msg_id m) ?st (message_map s),
      stats := (stats s)\<lparr>total_messages := total_messages (stats s) + 1,
                         in_progress := in_progress (stats s) + 1\<rparr>\<rparr>"
  obtain b st' s4 where a: "attempt_send env (msg_id m) ?st ?s3 = (b, st', s4)"
    by (metis prod_cases3)
  have k: "msg_id m \<notin> fst ` set (message_map s)"
    using assms(3) by (simp add: map_of_eq_None_iff)
  have c3: "len_index ?s3 = len_index s + 1"
    using k by (simp add: len_index_def dom_update)
  have c4: "in_progress (stats s4) = in_progress (stats s) + 1" "len_index s4 = len_index s + 1"
    using attempt_send_counted[OF a] c3 by simp_all
  from assms(1) a consider "handle_success env (msg_id m) st' s4 = Inr s'"
      | "schedule_next_retry env (msg_id m) st' s4 = Inr s'"
    by (auto simp: newMessage_def time_time_def Let_def split: if_splits)
  then show ?thesis
  proof cases
    case 1
    from handle_success_counted[OF 1] c4 assms(2) show ?thesis by (simp add: counted_def)
  next
    case 2
    from schedule_next_retry_counted[OF 2] c4 assms(2) show ?thesis by (simp add: counted_def)
  qed
qed

text \<open>
  Claim C4, as amended. From a state with \<open>in_progress = |index|\<close>, every completed run
  of intake, tick and stop events in which no message is taken in under an id that the
  index holds at that moment ends with \<open>in_progress = |index|\<close>.
\<close>

theorem in_progress_is_index_size:
  assumes "in_progress (stats s) = len_index s" and "fresh_intakes env evs s"
    and "run env evs s = Inr s'"
  shows "in_progress (stats s') = len_index s'"
proof -
  have "counted s \<Longrightarrow> fresh_intakes env evs s \<Longrightarrow> run env evs s = Inr s' \<Longrightarrow> counted s'"
  proof (induction evs arbitrary: s)
    case Nil
    then show ?case by simp
  next
    case (Cons e evs)
    from Cons.prems(3) obtain s1 where s1: "step env e s = Inr s1" "run env evs s1 = Inr s'"
      by (auto split: sum.splits)
    from Cons.prems(2) s1(1) have f: "fresh_intakes env evs s1" by simp
    have "counted s1"
    proof (cases e)
      case Start
      with Cons.prems(2) show ?thesis by simp
    next
      case Stop
      with s1(1) Cons.prems(1) show ?thesis by (auto simp: stop_def counted_def len_index_def)
    next
      case (NewMessage m)
      with Cons.prems(2) have "map_of (message_map s) (msg_id m) = None" by simp
      with NewMessage s1(1) Cons.prems(1) show ?thesis by (auto intro: newMessage_counted)
    next
      case Wakeup
      with s1(1) Cons.prems(1) show ?thesis by (auto intro: wakeup_counted)
    qed
    from Cons.IH[OF this f s1(2)] show ?case .
  qed
  with assms show ?thesis by (simp add: counted_def)
qed

theorem in_progress_is_index_size_witness:
  "\<exists>s'. run (example_env (Returned False)) [NewMessage example_message, Wakeup]
          (started (example_env (Returned False))) = Inr s'
        \<and> in_progress (stats s') = 1 \<and> len_index s' = 1"
proof -
  let ?E = "example_env (Returned False)"
  let ?s = "started (example_env (Returned False))"
  obtain s' where r: "run ?E [NewMessage example_message, Wakeup] ?s = Inr s'"
      and i: "in_progress (stats s') = 1"
    by (simp add: started_eq eval_defs wakeup_loop.simps)
  have c: "in_progress (stats ?s) = len_index ?s"
    by (simp add: started_eq len_index_def)
  have f: "fresh_intakes ?E [NewMessage example_message, Wakeup] ?s"
    by (simp add: started_eq eval_defs wakeup_loop.simps)
  from in_progress_is_index_size[OF c f r] r i show ?thesis by auto
qed

text \<open>
  The claim as stated fails: taking in the same id twice while it is pending counts it
  twice, and the index holds one entry.
\<close>

theorem duplicate_intake_leaks_in_progress:
  "\<exists>s'. run (example_env (Returned False)) [NewMessage example_message, NewMessage example_message]
          (init []) = Inr s'
        \<and> in_progress (stats s') = 2 \<and> len_index s' = 1"
  by (simp add: eval_defs len_index_def)

section \<open>Reading the logs\<close>

text \<open>Two success records: \<open>m1\<close> was written first, \<open>m2\<close> five seconds later.\<close>

definition older_success :: MessageState where
  "older_success =
     \<lparr>message_id = ''m1'',
      message = \<lparr>msg_id = ''m1'', content = ''first'', metadata = None\<rparr>,
      attempt_count = 1, next_retry_at = 100, status = SUCCESS,
      created_at = 100, updated_at = 100\<rparr>"

definition newer_success :: MessageState where
  "newer_success =
     \<lparr>message_id = ''m2'',
      message = \<lparr>msg_id = ''m2'', content = ''second'', metadata = None\<rparr>,
      attempt_count = 1, next_retry_at = 105, status = SUCCESS,
      created_at = 105, updated_at = 105\<rparr>"

definition success_bucket :: "(string \<times> nat \<times> json_text) list" where
  "success_bucket =
     [(''success/2024-01-01T00:00:00.000001_m1.json'', 100, to_json older_success),
      (''success/2024-01-01T00:00:05.000001_m2.json'', 105, to_json newer_success)]"

text \<open>
  Claim C8. \<open>get_recent_success(limit)\<close> is to return the \<open>limit\<close> most recently
  modified records, newest first. It asks the store for \<open>MaxKeys = limit\<close> keys, and the
  store answers with the first keys in key order, which are the oldest; sorting comes
  after the cut. With two records and \<open>limit = 1\<close> the code returns the older record;
  with \<open>limit = 2\<close> it returns both, newest first.
\<close>

theorem get_recent_success_keeps_oldest:
  "fst (get_recent_success (example_env (Returned True)) 1 (init success_bucket))
     = [to_dict older_success]
   \<and> fst (get_recent_success (example_env (Returned True)) 2 (init success_bucket))
     = [to_dict newer_success, to_dict older_success]"
  by (simp add: get_recent_success_def get_recent_from_prefix_def list_objects_v2_def
      s3_raises_def listing_def has_prefix_def sorted_reverse_def get_object_def
      json_loads_def to_json_def json_dumps_def example_env_def init_def success_bucket_def
      less_char_def less_eq_char_def)


section \<open>Persistence of a message that succeeds at once\<close>

lemma log_key_neq_state_key: "log_key p ts mid \<noteq> state_key env mid"
proof
  assume "log_key p ts mid = state_key env mid"
  then have "(p @ ''/'' @ ts @ ''_'') @ (mid @ ''.json'') = (state_prefix env @ ''/'') @ (mid @ ''.json'')"
    by (simp add: log_key_def state_key_def)
  from this[unfolded append_same_eq]
  have "last (p @ ''/'' @ ts @ ''_'') = last (state_prefix env @ ''/'')"
    by (rule arg_cong)
  then show False by simp
qed

lemma newMessage_success_eq:
  assumes "send_function env (length (send_log s)) m = Returned True"
  shows "newMessage env m s =
     Inr (snd (mark_success env (msg_id m)
        \<lparr>message_id = msg_id m, message = m, attempt_count = 1,
          next_retry_at = clock env (clock_reads s), status = SUCCESS,
          created_at = clock env (clock_reads s),
          updated_at = clock env (Suc (Suc (clock_reads s)))\<rparr>
        (s\<lparr>send_log := send_log s @
             [\<lparr>sent_state = \<lparr>message_id = msg_id m, message = m, attempt_count = 0,
                  next_retry_at = clock env (clock_reads s), status = PENDING,
                  created_at = clock env (clock_reads s),
                  updated_at = clock env (clock_reads s)\<rparr>,
               sent_reads = Suc (clock_reads s)\<rparr>],
           clock_reads := Suc (Suc (Suc (clock_reads s))),
           message_map := AList.delete (msg_id m) (message_map s),
           stats := (stats s)\<lparr>total_messages := total_messages (stats s) + 1,
                              total_success := total_success (stats s) + 1\<rparr>\<rparr>)))"
  using assms
  by (simp add: newMessage_def time_time_def attempt_send_eq handle_success_eq
      map_of_map_entry AList.update_conv' delete_map_entry delete_update_same)

lemma mark_success_calls:
  "s3_calls (snd (mark_success env mid st s)) = s3_calls s @
     (let put = PutObject (log_key (success_prefix env) (utcnow_isoformat env (clock_reads s)) mid)
                  (to_json st)
      in if s3_fault env (length (s3_calls s)) put then [put]
         else [put, DeleteObject (state_key env mid)])"
  by (simp add: mark_success_def utcnow_def put_object_def delete_state_def delete_object_def
      s3_raises_def s3_log_def Let_def)

lemma mark_success_bucket:
  "map_of (bucket s) (state_key env mid) = None
     \<Longrightarrow> map_of (bucket (snd (mark_success env mid st s))) (state_key env mid) = None"
  using log_key_neq_state_key[of "success_prefix env" "utcnow_isoformat env (clock_reads s)" mid env]
  by (auto simp: mark_success_def utcnow_def put_object_def delete_state_def delete_object_def
      s3_raises_def s3_log_def Let_def AList.delete_conv' AList.update_conv')

text \<open>
  Claim C10. When the first attempt of \<open>newMessage\<close> succeeds, the calls made to the
  store for the message are the write of the success record (status SUCCESS,
  \<open>attempt_count = 1\<close>) and, unless that write failed, the delete of the pending record; no call writes the pending record, a
  pending record that did not exist before does not exist after, and the message is
  neither in the index nor scheduled.
\<close>

theorem first_attempt_success_writes_no_pending_record:
  assumes "send_function env (length (send_log s)) m = Returned True"
  shows "\<exists>s' st.
           newMessage env m s = Inr s'
         \<and> message st = m \<and> attempt_count st = 1 \<and> status st = SUCCESS
         \<and> s3_calls s' = s3_calls s @
             (let put = PutObject (log_key (success_prefix env)
                          (utcnow_isoformat env (clock_reads s + 3)) (msg_id m)) (to_json st)
              in if s3_fault env (length (s3_calls s)) put then [put]
                 else [put, DeleteObject (state_key env (msg_id m))])
         \<and> (\<forall>b. PutObject (state_key env (msg_id m)) b
                 \<notin> set (drop (length (s3_calls s)) (s3_calls s')))
         \<and> (map_of (bucket s) (state_key env (msg_id m)) = None
              \<longrightarrow> map_of (bucket s') (state_key env (msg_id m)) = None)
         \<and> map_of (message_map s') (msg_id m) = None
         \<and> retry_heap s' = retry_heap s"
proof -
  let ?st = "\<lparr>message_id = msg_id m, message = m, attempt_count = 1,
          next_retry_at = clock env (clock_reads s), status = SUCCESS,
          created_at = clock env (clock_reads s),
          updated_at = clock env (Suc (Suc (clock_reads s)))\<rparr>"
  let ?key = "log_key (success_prefix env) (utcnow_isoformat env (clock_reads s + 3)) (msg_id m)"
  let ?put = "PutObject ?key (to_json ?st)"
  let ?new = "if s3_fault env (length (s3_calls s)) ?put then [?put]
              else [?put, DeleteObject (state_key env (msg_id m))]"
  obtain s' where s': "newMessage env m s = Inr s'"
      "s' = snd (mark_success env (msg_id m) ?st
        (s\<lparr>send_log := send_log s @
             [\<lparr>sent_state = \<lparr>message_id = msg_id m, message = m, attempt_count = 0,
                  next_retry_at = clock env (clock_reads s), status = PENDING,
                  created_at = clock env (clock_reads s),
                  updated_at = clock env (clock_reads s)\<rparr>,
               sent_reads = Suc (clock_reads s)\<rparr>],
           clock_reads := Suc (Suc (Suc (clock_reads s))),
           message_map := AList.delete (msg_id m) (message_map s),
           stats := (stats s)\<lparr>total_messages := total_messages (stats s) + 1,
                              total_success := total_success (stats s) + 1\<rparr>\<rparr>))"
    using newMessage_success_eq[OF assms] by simp
  have calls: "s3_calls s' = s3_calls s @ ?new"
    unfolding s'(2) mark_success_calls by (simp add: Let_def numeral_3_eq_3)
  have nk: "?key \<noteq> state_key env (msg_id m)"
    by (rule log_key_neq_state_key)
  have noput: "\<forall>b. PutObject (state_key env (msg_id m)) b \<notin> set (drop (length (s3_calls s)) (s3_calls s'))"
    unfolding calls using nk by auto
  have buck: "map_of (bucket s) (state_key env (msg_id m)) = None
              \<longrightarrow> map_of (bucket s') (state_key env (msg_id m)) = None"
    unfolding s'(2) by (auto intro: mark_success_bucket)
  have idx: "map_of (message_map s') (msg_id m) = None"
    unfolding s'(2) by (simp add: AList.delete_conv')
  have heap: "retry_heap s' = retry_heap s"
    unfolding s'(2) by simp
  from s'(1) calls noput buck idx heap show ?thesis
    by (intro exI[where x = s'] exI[where x = ?st]) (simp add: Let_def)
qed

theorem first_attempt_success_writes_no_pending_record_witness:
  "\<exists>s' st. newMessage (example_env (Returned True)) example_message (init []) = Inr s'
     \<and> attempt_count st = 1 \<and> status st = SUCCESS
     \<and> s3_calls s' =
         [PutObject ''success/2024-01-01T00:00:00.000000_m2.json'' (to_json st),
          DeleteObject ''state/m2.json'']
     \<and> map_of (bucket s') ''state/m2.json'' = None"
  using first_attempt_success_writes_no_pending_record[of "example_env (Returned True)"
      "init []" example_message]
  by (simp add: example_env_def example_message_def init_def Let_def log_key_def state_key_def)
    blast

section \<open>Recovery\<close>


















section \<open>Well-formed states\<close>

text \<open>
  The states the scheduler reaches when every id is taken in once at a time: every
  entry of the index is a pending state stored under its own id, with one to five
  attempts made, and has its heap entry at \<open>created_at + RETRY_SCHEDULE[attempt_count]\<close>;
  the heap is ordered, holds no id twice and no id that is not in the index.
\<close>

definition well_formed :: "scheduler \<Rightarrow> bool" where
  "well_formed s \<longleftrightarrow>
     (\<forall>k st. map_of (message_map s) k = Some st \<longrightarrow>
        message_id st = k \<and> status st = PENDING
        \<and> 1 \<le> attempt_count st \<and> attempt_count st < 6
        \<and> (created_at st + RETRY_SCHEDULE ! nat (attempt_count st), k) \<in> set (retry_heap s))
     \<and> sorted (retry_heap s)
     \<and> distinct (map snd (retry_heap s))
     \<and> (\<forall>e \<in> set (retry_heap s). map_of (message_map s) (snd e) \<noteq> None)"

lemma distinct_map_snd_insort:
  "distinct (map snd (insort e xs)) \<longleftrightarrow> snd e \<notin> snd ` set xs \<and> distinct (map snd xs)"
  by (induction xs) (auto simp: set_insort_key)

lemma mark_failed_calls:
  "s3_calls (snd (mark_failed env mid st s)) = s3_calls s @
     (let put = PutObject (log_key (failed_prefix env) (utcnow_isoformat env (clock_reads s)) mid)
                  (to_json st)
      in if s3_fault env (length (s3_calls s)) put then [put]
         else [put, DeleteObject (state_key env mid)])"
  by (simp add: mark_failed_def utcnow_def put_object_def delete_state_def delete_object_def
      s3_raises_def s3_log_def Let_def)

lemma save_message_state_calls:
  "s3_calls (snd (save_message_state env st s)) =
     s3_calls s @ [PutObject (state_key env (message_id st)) (to_json st)]"
  by (simp add: save_message_state_def put_object_def s3_raises_def s3_log_def)

lemma newMessage_failure_eq:
  assumes "send_function env (length (send_log s)) m \<noteq> Returned True"
  shows "newMessage env m s =
     Inr (snd (save_message_state env
        \<lparr>message_id = msg_id m, message = m, attempt_count = 1,
          next_retry_at = clock env (clock_reads s) + 1/2, status = PENDING,
          created_at = clock env (clock_reads s),
          updated_at = clock env (Suc (clock_reads s))\<rparr>
        (s\<lparr>stats := (stats s)\<lparr>total_messages := total_messages (stats s) + 1,
                              in_progress := in_progress (stats s) + 1\<rparr>,
           send_log := send_log s @
             [\<lparr>sent_state = \<lparr>message_id = msg_id m, message = m, attempt_count = 0,
                  next_retry_at = clock env (clock_reads s), status = PENDING,
                  created_at = clock env (clock_reads s),
                  updated_at = clock env (clock_reads s)\<rparr>,
               sent_reads = Suc (clock_reads s)\<rparr>],
           clock_reads := Suc (Suc (clock_reads s)),
           message_map := AList.update (msg_id m)
              \<lparr>message_id = msg_id m, message = m, attempt_count = 1,
                next_retry_at = clock env (clock_reads s) + 1/2, status = PENDING,
                created_at = clock env (clock_reads s),
                updated_at = clock env (Suc (clock_reads s))\<rparr> (message_map s),
           retry_heap := heappush (retry_heap s) (clock env (clock_reads s) + 1/2, msg_id m)\<rparr>)))"
proof -
  have me: "AList.map_entry k (\<lambda>_. b) (AList.map_entry k (\<lambda>_. a) (AList.update k c xs))
      = AList.update k b xs" for k and a b c :: MessageState and xs
    by (induction xs) auto
  from assms have "(case send_function env (length (send_log s)) m of
      Returned b \<Rightarrow> b | Raised \<Rightarrow> False) = False"
    by (cases "send_function env (length (send_log s)) m") auto
  then show ?thesis
    by (simp add: newMessage_def time_time_def attempt_send_eq schedule_next_retry_eq
        py_index_def RETRY_SCHEDULE_def me)
qed


lemma handle_success_fields:
  assumes "map_of (message_map s) (message_id st) \<noteq> None"
  shows "\<exists>s'. handle_success env k st s = Inr s'
           \<and> retry_heap s' = retry_heap s
           \<and> message_map s' = AList.delete (message_id st)
                (AList.map_entry k
                   (\<lambda>_. st\<lparr>status := SUCCESS, updated_at := clock env (clock_reads s)\<rparr>)
                   (message_map s))
           \<and> send_log s' = send_log s
           \<and> clock_reads s' = clock_reads s + 2
           \<and> running s' = running s
           \<and> (\<exists>cs. s3_calls s' = s3_calls s @ cs)"
  using assms by (simp add: handle_success_eq mark_success_calls Let_def)

lemma handle_failure_fields:
  assumes "map_of (message_map s) (message_id st) \<noteq> None"
  shows "\<exists>s'. handle_failure env k st s = Inr s'
           \<and> retry_heap s' = retry_heap s
           \<and> message_map s' = AList.delete (message_id st)
                (AList.map_entry k
                   (\<lambda>_. st\<lparr>status := FAILED_MAX_RETRIES, updated_at := clock env (clock_reads s)\<rparr>)
                   (message_map s))
           \<and> send_log s' = send_log s
           \<and> clock_reads s' = clock_reads s + 2
           \<and> running s' = running s
           \<and> (\<exists>cs. s3_calls s' = s3_calls s @
                  PutObject (log_key (failed_prefix env)
                     (utcnow_isoformat env (Suc (clock_reads s))) (message_id st))
                    (to_json (st\<lparr>status := FAILED_MAX_RETRIES,
                                  updated_at := clock env (clock_reads s)\<rparr>)) # cs)"
  using assms by (simp add: handle_failure_eq mark_failed_calls Let_def)

lemma schedule_next_retry_fields:
  assumes "0 \<le> attempt_count st" and "attempt_count st < 6"
  shows "\<exists>s'. schedule_next_retry env k st s = Inr s'
           \<and> retry_heap s' = insort (created_at st + RETRY_SCHEDULE ! nat (attempt_count st),
                                      message_id st) (retry_heap s)
           \<and> message_map s' = AList.map_entry k
                (\<lambda>_. st\<lparr>next_retry_at :=
                           created_at st + RETRY_SCHEDULE ! nat (attempt_count st)\<rparr>)
                (message_map s)
           \<and> send_log s' = send_log s
           \<and> clock_reads s' = clock_reads s
           \<and> running s' = running s
           \<and> (\<exists>cs. s3_calls s' = s3_calls s @ cs)"
proof -
  have "py_index RETRY_SCHEDULE (attempt_count st) = Inr (RETRY_SCHEDULE ! nat (attempt_count st))"
    using assms by (simp add: py_index_def RETRY_SCHEDULE_def)
  with assms(2) show ?thesis
    by (simp add: schedule_next_retry_eq save_message_state_calls heappush_def)
qed


lemma wf_head:
  assumes "well_formed s" and "retry_heap s = (t, mid) # rest"
  shows "\<exists>st. map_of (message_map s) mid = Some st \<and> status st = PENDING
           \<and> message_id st = mid \<and> 1 \<le> attempt_count st \<and> attempt_count st < 6
           \<and> t = created_at st + RETRY_SCHEDULE ! nat (attempt_count st)"
proof -
  from assms have "map_of (message_map s) mid \<noteq> None"
    by (auto simp: well_formed_def)
  then obtain st where st: "map_of (message_map s) mid = Some st" by auto
  with assms(1) have p: "message_id st = mid" "status st = PENDING" "1 \<le> attempt_count st"
      "attempt_count st < 6"
      "(created_at st + RETRY_SCHEDULE ! nat (attempt_count st), mid) \<in> set (retry_heap s)"
    unfolding well_formed_def by blast+
  from assms have "mid \<notin> snd ` set rest"
    by (auto simp: well_formed_def)
  with p(5) assms(2) have "t = created_at st + RETRY_SCHEDULE ! nat (attempt_count st)"
    by (auto simp: image_iff)
  with st p show ?thesis by blast
qed

lemma wf_after_remove:
  assumes "well_formed s" and "retry_heap s = (t, mid) # rest" and "retry_heap s1 = rest"
    and "map_of (message_map s1) = (map_of (message_map s))(mid := None)"
  shows "well_formed s1"
proof -
  from assms(1,2) have nm: "mid \<notin> snd ` set rest" and d: "distinct (map snd rest)"
      and so: "sorted rest"
    by (auto simp: well_formed_def)
  have a: "message_id st = k \<and> status st = PENDING \<and> 1 \<le> attempt_count st
        \<and> attempt_count st < 6
        \<and> (created_at st + RETRY_SCHEDULE ! nat (attempt_count st), k) \<in> set (retry_heap s1)"
    if "map_of (message_map s1) k = Some st" for k st
  proof -
    from that assms(4) have k: "k \<noteq> mid" and m: "map_of (message_map s) k = Some st"
      by (auto split: if_splits)
    from assms(1) m have p: "message_id st = k" "status st = PENDING" "1 \<le> attempt_count st"
      "attempt_count st < 6"
      "(created_at st + RETRY_SCHEDULE ! nat (attempt_count st), k) \<in> set (retry_heap s)"
      unfolding well_formed_def by blast+
    from p(5) k assms(2,3) have "(created_at st + RETRY_SCHEDULE ! nat (attempt_count st), k)
        \<in> set (retry_heap s1)" by auto
    with p show ?thesis by blast
  qed
  have e: "map_of (message_map s1) (snd e) \<noteq> None" if "e \<in> set (retry_heap s1)" for e
  proof -
    from that assms(3) nm have "snd e \<noteq> mid" by auto
    moreover from that assms(1,2,3) have "map_of (message_map s) (snd e) \<noteq> None"
      by (auto simp: well_formed_def)
    ultimately show ?thesis using assms(4) by simp
  qed
  from a e d so assms(3) show ?thesis
    unfolding well_formed_def by blast
qed

lemma wf_after_intake:
  assumes "well_formed s" and "map_of (message_map s) k = None"
    and "retry_heap s1 =
           insort (created_at st + RETRY_SCHEDULE ! nat (attempt_count st), k) (retry_heap s)"
    and "map_of (message_map s1) = (map_of (message_map s))(k \<mapsto> st)"
    and "message_id st = k" and "status st = PENDING"
    and "1 \<le> attempt_count st" and "attempt_count st < 6"
  shows "well_formed s1"
proof -
  from assms(1,2) have nk: "k \<notin> snd ` set (retry_heap s)"
    by (force simp: well_formed_def)
  have a: "message_id x = j \<and> status x = PENDING \<and> 1 \<le> attempt_count x
        \<and> attempt_count x < 6
        \<and> (created_at x + RETRY_SCHEDULE ! nat (attempt_count x), j) \<in> set (retry_heap s1)"
    if "map_of (message_map s1) j = Some x" for j x
  proof (cases "j = k")
    case True
    with that assms(4) have "x = st" by simp
    with True assms(3,5-8) show ?thesis by (simp add: set_insort_key)
  next
    case False
    with that assms(4) have m: "map_of (message_map s) j = Some x" by simp
    from assms(1) m have p: "message_id x = j" "status x = PENDING" "1 \<le> attempt_count x"
      "attempt_count x < 6"
      "(created_at x + RETRY_SCHEDULE ! nat (attempt_count x), j) \<in> set (retry_heap s)"
      unfolding well_formed_def by blast+
    with assms(3) show ?thesis by (simp add: set_insort_key)
  qed
  have e: "map_of (message_map s1) (snd e) \<noteq> None" if "e \<in> set (retry_heap s1)" for e
    using that assms(1,3,4) by (auto simp: well_formed_def set_insort_key)
  have so: "sorted (retry_heap s1)"
    using assms(1,3) by (simp add: well_formed_def sorted_insort)
  have d: "distinct (map snd (retry_heap s1))"
    using assms(1,3) nk by (simp add: well_formed_def distinct_map_snd_insort)
  from a e so d show ?thesis
    unfolding well_formed_def by blast
qed


text \<open>One round of the loop on a well-formed state.\<close>

lemma wf_round:
  assumes wf: "well_formed s" and r: "wakeup_round env ct s = Some r"
  shows "\<exists>t mid rest st s1 cs.
           retry_heap s = (t, mid) # rest \<and> t \<le> ct
         \<and> map_of (message_map s) mid = Some st
         \<and> t = created_at st + RETRY_SCHEDULE ! nat (attempt_count st)
         \<and> r = Inr s1 \<and> well_formed s1
         \<and> send_log s1 = send_log s @ [\<lparr>sent_state = st, sent_reads = clock_reads s\<rparr>]
         \<and> clock_reads s < clock_reads s1
         \<and> running s1 = running s
         \<and> (\<forall>k. k \<noteq> mid \<longrightarrow> map_of (message_map s1) k = map_of (message_map s) k)
         \<and> s3_calls s1 = s3_calls s @ cs
         \<and> (if send_function env (length (send_log s)) (message st) = Returned True
             then map_of (message_map s1) mid = None
             else if attempt_count st = 5
             then map_of (message_map s1) mid = None
                  \<and> (\<exists>ts f. PutObject (log_key (failed_prefix env) ts mid) (to_json f)
                                \<in> set cs
                       \<and> message f = message st \<and> message_id f = mid
                       \<and> created_at f = created_at st
                       \<and> attempt_count f = 6 \<and> status f = FAILED_MAX_RETRIES)
             else (\<exists>st'. map_of (message_map s1) mid = Some st'
                       \<and> message st' = message st \<and> created_at st' = created_at st
                       \<and> attempt_count st' = attempt_count st + 1))"
  using r
proof (cases rule: wakeup_round_cases)
  case (stale next_time mid rest)
  from wf_head[OF wf stale(1)] stale(3) show ?thesis by auto
next
  case (attempt t mid rest st b st' s2)
  from wf_head[OF wf attempt(1)] attempt(3)
  have st: "status st = PENDING" "message_id st = mid" "1 \<le> attempt_count st"
    "attempt_count st < 6" "t = created_at st + RETRY_SCHEDULE ! nat (attempt_count st)"
    by auto
  let ?u = "clock env (clock_reads s)"
  from attempt(5) have b: "b = (send_function env (length (send_log s)) (message st) = Returned True)"
    and st': "st' = st\<lparr>attempt_count := attempt_count st + 1, updated_at := ?u\<rparr>"
    and s2: "retry_heap s2 = rest"
      "message_map s2 = AList.map_entry mid (\<lambda>_. st') (message_map s)"
      "send_log s2 = send_log s @ [\<lparr>sent_state = st, sent_reads = clock_reads s\<rparr>]"
      "clock_reads s2 = Suc (clock_reads s)" "running s2 = running s" "s3_calls s2 = s3_calls s"
    by (auto simp: attempt_send_eq split: outcome.splits bool.splits)
  have in2: "map_of (message_map s2) (message_id st') \<noteq> None"
    using attempt(3) st(2) by (simp add: s2 st' map_of_map_entry)
  have m2: "map_of (message_map s2) = (map_of (message_map s))(mid \<mapsto> st')"
    using attempt(3) by (auto simp: s2 map_of_map_entry)
  have head: "retry_heap s = (t, mid) # rest \<and> t \<le> ct \<and> map_of (message_map s) mid = Some st
      \<and> t = created_at st + RETRY_SCHEDULE ! nat (attempt_count st)"
    using attempt st by simp
  consider (succ) "b" | (fail) "\<not> b" "attempt_count st = 5" | (retry) "\<not> b" "attempt_count st < 5"
    using st(4) by fastforce
  then show ?thesis
  proof cases
    case succ
    from handle_success_fields[OF in2, of env mid] obtain s1 cs where
      s1: "handle_success env mid st' s2 = Inr s1" "retry_heap s1 = rest"
        "message_map s1 = AList.delete (message_id st')
           (AList.map_entry mid (\<lambda>_. st'\<lparr>status := SUCCESS, updated_at := clock env (clock_reads s2)\<rparr>)
              (message_map s2))"
        "send_log s1 = send_log s2" "clock_reads s1 = clock_reads s2 + 2"
        "running s1 = running s2" "s3_calls s1 = s3_calls s2 @ cs"
      using s2(1) by auto
    have m1: "map_of (message_map s1) = (map_of (message_map s))(mid := None)"
      using st(2) by (simp add: s1(3) st' AList.delete_conv' map_of_map_entry m2)
    have w: "well_formed s1"
      by (rule wf_after_remove[OF wf attempt(1) s1(2) m1])
    from attempt(6) succ s1(1) have "r = Inr s1" by simp
    with head w s1 s2 m1 b succ show ?thesis
      by (intro exI[where x = t] exI[where x = mid] exI[where x = rest] exI[where x = st]
          exI[where x = s1] exI[where x = cs]) simp
  next
    case fail
    from handle_failure_fields[OF in2, of env mid] obtain s1 cs where
      s1: "handle_failure env mid st' s2 = Inr s1" "retry_heap s1 = rest"
        "message_map s1 = AList.delete (message_id st')
           (AList.map_entry mid (\<lambda>_. st'\<lparr>status := FAILED_MAX_RETRIES,
                                         updated_at := clock env (clock_reads s2)\<rparr>)
              (message_map s2))"
        "send_log s1 = send_log s2" "clock_reads s1 = clock_reads s2 + 2"
        "running s1 = running s2"
        "s3_calls s1 = s3_calls s2 @
           PutObject (log_key (failed_prefix env) (utcnow_isoformat env (Suc (clock_reads s2)))
                        (message_id st'))
             (to_json (st'\<lparr>status := FAILED_MAX_RETRIES,
                           updated_at := clock env (clock_reads s2)\<rparr>)) # cs"
      using s2(1) by auto
    have m1: "map_of (message_map s1) = (map_of (message_map s))(mid := None)"
      using st(2) by (simp add: s1(3) st' AList.delete_conv' map_of_map_entry m2)
    have w: "well_formed s1"
      by (rule wf_after_remove[OF wf attempt(1) s1(2) m1])
    from attempt(6) fail s1(1) have "r = Inr s1" by (simp add: st' MAX_ATTEMPTS_def)
    moreover have "\<exists>ts f. PutObject (log_key (failed_prefix env) ts mid) (to_json f)
                                \<in> set (PutObject (log_key (failed_prefix env)
                                     (utcnow_isoformat env (Suc (clock_reads s2))) (message_id st'))
                                   (to_json (st'\<lparr>status := FAILED_MAX_RETRIES,
                                      updated_at := clock env (clock_reads s2)\<rparr>)) # cs)
                       \<and> message f = message st \<and> message_id f = mid
                       \<and> created_at f = created_at st
                       \<and> attempt_count f = 6 \<and> status f = FAILED_MAX_RETRIES"
      by (rule exI[where x = "utcnow_isoformat env (Suc (clock_reads s2))"],
          rule exI[where x = "st'\<lparr>status := FAILED_MAX_RETRIES,
                           updated_at := clock env (clock_reads s2)\<rparr>"])
         (use st(2) fail(2) in \<open>simp add: st'\<close>)
    ultimately show ?thesis
      using head w s1(2-6) s2 m1 b fail
      by (intro exI[where x = t] exI[where x = mid] exI[where x = rest] exI[where x = st]
          exI[where x = s1]
          exI[where x = "PutObject (log_key (failed_prefix env)
                                     (utcnow_isoformat env (Suc (clock_reads s2))) (message_id st'))
                                   (to_json (st'\<lparr>status := FAILED_MAX_RETRIES,
                                      updated_at := clock env (clock_reads s2)\<rparr>)) # cs"])
         (simp add: s1(7))
  next
    case retry
    have c': "0 \<le> attempt_count st'" "attempt_count st' < 6"
      using st(3) retry(2) by (simp_all add: st')
    let ?st2 = "st'\<lparr>next_retry_at :=
                    created_at st' + RETRY_SCHEDULE ! nat (attempt_count st')\<rparr>"
    from schedule_next_retry_fields[OF c', of env mid s2] obtain s1 cs where
      s1: "schedule_next_retry env mid st' s2 = Inr s1"
        "retry_heap s1 = insort (created_at st' + RETRY_SCHEDULE ! nat (attempt_count st'),
                                 message_id st') rest"
        "message_map s1 = AList.map_entry mid (\<lambda>_. ?st2) (message_map s2)"
        "send_log s1 = send_log s2" "clock_reads s1 = clock_reads s2"
        "running s1 = running s2" "s3_calls s1 = s3_calls s2 @ cs"
      using s2(1) by auto
    have m1: "map_of (message_map s1) = (map_of (message_map s))(mid \<mapsto> ?st2)"
      by (simp add: s1(3) map_of_map_entry m2)
    define s0 where "s0 = s\<lparr>retry_heap := rest,
        message_map := AList.delete mid (message_map s)\<rparr>"
    have w0: "well_formed s0"
      by (rule wf_after_remove[OF wf attempt(1)]) (simp_all add: s0_def AList.delete_conv')
    have w: "well_formed s1"
    proof (rule wf_after_intake[OF w0, where k = mid and st = ?st2])
      show "map_of (message_map s0) mid = None" by (simp add: s0_def AList.delete_conv')
      show "retry_heap s1 =
          insort (created_at ?st2 + RETRY_SCHEDULE ! nat (attempt_count ?st2), mid) (retry_heap s0)"
        using st(2) by (simp add: s1(2) s0_def st')
      show "map_of (message_map s1) = (map_of (message_map s0))(mid \<mapsto> ?st2)"
        by (simp add: m1 s0_def AList.delete_conv')
      show "message_id ?st2 = mid" using st(2) by (simp add: st')
      show "status ?st2 = PENDING" using st(1) by (simp add: st')
      show "1 \<le> attempt_count ?st2" using st(3) by (simp add: st')
      show "attempt_count ?st2 < 6" using retry(2) by (simp add: st')
    qed
    from attempt(6) retry s1(1) have "r = Inr s1" by (simp add: st' MAX_ATTEMPTS_def)
    moreover have "\<exists>x. map_of (message_map s1) mid = Some x
                       \<and> message x = message st \<and> created_at x = created_at st
                       \<and> attempt_count x = attempt_count st + 1"
      by (rule exI[where x = ?st2]) (simp add: m1 st')
    ultimately show ?thesis
      using head w s1(2-7) s2 m1 b retry
      by (intro exI[where x = t] exI[where x = mid] exI[where x = rest] exI[where x = st]
          exI[where x = s1] exI[where x = cs]) simp
  qed
qed

lemma wf_newMessage:
  assumes wf: "well_formed s" and fresh: "map_of (message_map s) (msg_id m) = None"
  shows "\<exists>s1 cs.
           newMessage env m s = Inr s1 \<and> well_formed s1
         \<and> send_log s1 = send_log s @
              [\<lparr>sent_state = \<lparr>message_id = msg_id m, message = m, attempt_count = 0,
                   next_retry_at = clock env (clock_reads s), status = PENDING,
                   created_at = clock env (clock_reads s),
                   updated_at = clock env (clock_reads s)\<rparr>,
                sent_reads = Suc (clock_reads s)\<rparr>]
         \<and> clock_reads s < clock_reads s1
         \<and> running s1 = running s
         \<and> (\<forall>k. k \<noteq> msg_id m \<longrightarrow> map_of (message_map s1) k = map_of (message_map s) k)
         \<and> s3_calls s1 = s3_calls s @ cs
         \<and> (if send_function env (length (send_log s)) m = Returned True
             then map_of (message_map s1) (msg_id m) = None
             else (\<exists>st'. map_of (message_map s1) (msg_id m) = Some st'
                       \<and> message st' = m \<and> created_at st' = clock env (clock_reads s)
                       \<and> attempt_count st' = 1))"
proof (cases "send_function env (length (send_log s)) m = Returned True")
  case True
  note eq = newMessage_success_eq[OF True]
  from fresh have d: "AList.delete (msg_id m) (message_map s) = message_map s"
    by (simp add: map_of_eq_None_iff)
  obtain s1 where s1: "newMessage env m s = Inr s1" and
    f: "retry_heap s1 = retry_heap s" "message_map s1 = message_map s"
       "send_log s1 = send_log s @
              [\<lparr>sent_state = \<lparr>message_id = msg_id m, message = m, attempt_count = 0,
                   next_retry_at = clock env (clock_reads s), status = PENDING,
                   created_at = clock env (clock_reads s),
                   updated_at = clock env (clock_reads s)\<rparr>,
                sent_reads = Suc (clock_reads s)\<rparr>]"
       "clock_reads s1 = clock_reads s + 4" "running s1 = running s"
       "\<exists>cs. s3_calls s1 = s3_calls s @ cs"
    unfolding eq by (simp add: d mark_success_calls Let_def)
  from f(6) obtain cs where cs: "s3_calls s1 = s3_calls s @ cs" by blast
  have w: "well_formed s1"
    using wf f(1,2) by (simp add: well_formed_def)
  from s1 w f cs True fresh show ?thesis
    by (intro exI[where x = s1] exI[where x = cs]) simp
next
  case False
  note eq = newMessage_failure_eq[OF False]
  let ?st = "\<lparr>message_id = msg_id m, message = m, attempt_count = 1,
          next_retry_at = clock env (clock_reads s) + 1/2, status = PENDING,
          created_at = clock env (clock_reads s),
          updated_at = clock env (Suc (clock_reads s))\<rparr>"
  obtain s1 where s1: "newMessage env m s = Inr s1" and
    f: "retry_heap s1 = insort (clock env (clock_reads s) + 1/2, msg_id m) (retry_heap s)"
       "message_map s1 = AList.update (msg_id m) ?st (message_map s)"
       "send_log s1 = send_log s @
              [\<lparr>sent_state = \<lparr>message_id = msg_id m, message = m, attempt_count = 0,
                   next_retry_at = clock env (clock_reads s), status = PENDING,
                   created_at = clock env (clock_reads s),
                   updated_at = clock env (clock_reads s)\<rparr>,
                sent_reads = Suc (clock_reads s)\<rparr>]"
       "clock_reads s1 = clock_reads s + 2" "running s1 = running s"
       "\<exists>cs. s3_calls s1 = s3_calls s @ cs"
    unfolding eq by (simp add: save_message_state_calls heappush_def)
  from f(6) obtain cs where cs: "s3_calls s1 = s3_calls s @ cs" by blast
  have m1: "map_of (message_map s1) = (map_of (message_map s))(msg_id m \<mapsto> ?st)"
    by (simp add: f(2) AList.update_conv')
  have w: "well_formed s1"
    by (rule wf_after_intake[where st = ?st, OF wf fresh])
       (simp_all add: f(1) m1 RETRY_SCHEDULE_def)
  have "\<exists>st'. map_of (message_map s1) (msg_id m) = Some st'
                       \<and> message st' = m \<and> created_at st' = clock env (clock_reads s)
                       \<and> attempt_count st' = 1"
    by (rule exI[where x = ?st]) (simp add: m1)
  with s1 w f(3-5) cs False m1 show ?thesis
    by (intro exI[where x = s1] exI[where x = cs]) simp
qed


section \<open>Retries are not early\<close>

text \<open>The number of calls of the send function made so far for the id \<open>k\<close>.\<close>

definition sends_of :: "string \<Rightarrow> scheduler \<Rightarrow> nat" where
  "sends_of k s = length (filter (\<lambda>e. message_id (sent_state e) = k) (send_log s))"

text \<open>
  The time of a send call is not read by the code; the latest clock reading taken before
  the call, \<open>clock env (sent_reads e - 1)\<close>, is a lower bound of it. A send call made for
  a state with \<open>k\<close> attempts behind it (\<open>1 \<le> k < 6\<close>) is the \<open>k\<close>-th retry of that state.
\<close>

definition retry_on_time :: "env \<Rightarrow> send_event \<Rightarrow> bool" where
  "retry_on_time env e \<longleftrightarrow>
     (1 \<le> attempt_count (sent_state e) \<and> attempt_count (sent_state e) < 6 \<longrightarrow>
        created_at (sent_state e) + RETRY_SCHEDULE ! nat (attempt_count (sent_state e))
          \<le> clock env (sent_reads e - 1))"

definition retries_on_time :: "env \<Rightarrow> scheduler \<Rightarrow> bool" where
  "retries_on_time env s \<longleftrightarrow> list_all (retry_on_time env) (send_log s)"

lemma wf_clock_reads [simp]: "well_formed (s\<lparr>clock_reads := n\<rparr>) = well_formed s"
  by (simp add: well_formed_def)

lemma wf_running [simp]: "well_formed (s\<lparr>running := b\<rparr>) = well_formed s"
  by (simp add: well_formed_def)

lemma wakeup_on_time:
  assumes mono: "mono (clock env)" and wf: "well_formed s" and ot: "retries_on_time env s"
  shows "\<exists>s'. wakeup env s = Inr s' \<and> well_formed s' \<and> retries_on_time env s'"
proof (cases "running s")
  case False
  with wf ot show ?thesis by (simp add: wakeup_def)
next
  case True
  define ct where "ct = clock env (clock_reads s)"
  define P where "P x \<longleftrightarrow> well_formed x \<and> retries_on_time env x \<and> clock_reads s < clock_reads x"
    for x
  have p0: "P (s\<lparr>clock_reads := Suc (clock_reads s)\<rparr>)"
    using wf ot by (simp add: P_def retries_on_time_def)
  have step: "\<exists>x1. r = Inr x1 \<and> P x1" if "P x" and "wakeup_round env ct x = Some r" for x r
  proof -
    from that(1) have wx: "well_formed x" and ox: "retries_on_time env x"
      and cx: "clock_reads s < clock_reads x"
      by (simp_all add: P_def)
    from wf_round[OF wx that(2)] obtain t mid rest st x1 where
      h: "retry_heap x = (t, mid) # rest" "t \<le> ct" "map_of (message_map x) mid = Some st"
         "t = created_at st + RETRY_SCHEDULE ! nat (attempt_count st)"
         "r = Inr x1" "well_formed x1"
         "send_log x1 = send_log x @ [\<lparr>sent_state = st, sent_reads = clock_reads x\<rparr>]"
         "clock_reads x < clock_reads x1"
      by blast
    have "clock env (clock_reads s) \<le> clock env (clock_reads x - 1)"
      using cx by (intro monoD[OF mono]) simp
    with h(2,4) have "retry_on_time env \<lparr>sent_state = st, sent_reads = clock_reads x\<rparr>"
      by (simp add: retry_on_time_def ct_def)
    with ox h(7) have "retries_on_time env x1"
      by (simp add: retries_on_time_def)
    with h(5,6,8) cx show ?thesis by (simp add: P_def)
  qed
  have "\<exists>s'. wakeup_loop env ct (s\<lparr>clock_reads := Suc (clock_reads s)\<rparr>) = Inr s' \<and> P s'
      \<and> wakeup_round env ct s' = None"
    by (rule wakeup_loop_total[where P = P, OF p0]) (rule step)
  then obtain s' where "wakeup_loop env ct (s\<lparr>clock_reads := Suc (clock_reads s)\<rparr>) = Inr s'" "P s'"
    by blast
  with True show ?thesis
    by (simp add: wakeup_def time_time_def ct_def P_def)
qed

lemma newMessage_on_time:
  assumes wf: "well_formed s" and ot: "retries_on_time env s"
    and fresh: "map_of (message_map s) (msg_id m) = None"
  shows "\<exists>s'. newMessage env m s = Inr s' \<and> well_formed s' \<and> retries_on_time env s'"
proof -
  from wf_newMessage[OF wf fresh, of env] obtain s1 where
    s1: "newMessage env m s = Inr s1" "well_formed s1"
      "send_log s1 = send_log s @
              [\<lparr>sent_state = \<lparr>message_id = msg_id m, message = m, attempt_count = 0,
                   next_retry_at = clock env (clock_reads s), status = PENDING,
                   created_at = clock env (clock_reads s),
                   updated_at = clock env (clock_reads s)\<rparr>,
                sent_reads = Suc (clock_reads s)\<rparr>]"
    by blast
  with ot show ?thesis
    by (simp add: retries_on_time_def retry_on_time_def)
qed

text \<open>
  Claim C5, as amended. Let the clock be monotone. From a well-formed state in which
  every retry made so far was on time, every run of intake, tick and stop events in
  which no message is taken in under an id that the index holds at that moment
  completes, and in it no retry is made before \<open>created_at + RETRY_SCHEDULE[k]\<close>, where
  \<open>k\<close> is the number of attempts made before: the latest clock reading before the
  \<open>k\<close>-th retry is at least that time.
\<close>

theorem retries_not_early:
  assumes "mono (clock env)" and "well_formed s" and "retries_on_time env s"
    and "fresh_intakes env evs s"
  shows "\<exists>s'. run env evs s = Inr s' \<and> well_formed s' \<and> retries_on_time env s'"
  using assms(2-4)
proof (induction evs arbitrary: s)
  case Nil
  then show ?case by simp
next
  case (Cons e evs)
  have "\<exists>s1. step env e s = Inr s1 \<and> well_formed s1 \<and> retries_on_time env s1"
  proof (cases e)
    case Start
    with Cons.prems(3) show ?thesis by simp
  next
    case Stop
    with Cons.prems(1,2) show ?thesis by (simp add: stop_def retries_on_time_def)
  next
    case (NewMessage m)
    with Cons.prems(3) have "map_of (message_map s) (msg_id m) = None" by simp
    from newMessage_on_time[OF Cons.prems(1,2) this] NewMessage show ?thesis by simp
  next
    case Wakeup
    from wakeup_on_time[OF assms(1) Cons.prems(1,2)] Wakeup show ?thesis by simp
  qed
  then obtain s1 where s1: "step env e s = Inr s1" "well_formed s1" "retries_on_time env s1"
    by blast
  from Cons.prems(3) s1(1) have "fresh_intakes env evs s1" by simp
  from Cons.IH[OF s1(2,3) this] s1(1) show ?case by simp
qed


lemma example_clock_mono: "mono (clock (example_env r))"
  by (rule monoI) (simp add: example_env_def divide_right_mono)

theorem retries_not_early_witness:
  "\<exists>s'. run (example_env (Returned False)) [NewMessage example_message, Wakeup, Wakeup]
          (started (example_env (Returned False))) = Inr s'
        \<and> well_formed s' \<and> retries_on_time (example_env (Returned False)) s'
        \<and> length (send_log s') = 3"
proof -
  let ?E = "example_env (Returned False)"
  let ?s = "started (example_env (Returned False))"
  let ?evs = "[NewMessage example_message, Wakeup, Wakeup]"
  obtain s' where r: "run ?E ?evs ?s = Inr s'" and n: "length (send_log s') = 3"
    by (simp add: started_eq eval_defs wakeup_loop.simps)
  have w: "well_formed ?s" by (simp add: well_formed_def started_eq)
  have o: "retries_on_time ?E ?s" by (simp add: retries_on_time_def started_eq)
  have f: "fresh_intakes ?E ?evs ?s" by (simp add: started_eq eval_defs wakeup_loop.simps)
  from retries_not_early[OF example_clock_mono w o f] r n show ?thesis by auto
qed

text \<open>
  A clock that shows 0 up to the end of the first intake, 0.1 during the second and 0.5
  from then on.
\<close>

definition late_intake_env :: env where
  "late_intake_env =
     (example_env (Returned False))
       \<lparr>clock := (\<lambda>n. if n < 3 then 0 else if n < 5 then 1/10 else 1/2)\<rparr>"

text \<open>
  The claim as stated fails: \<open>m2\<close> is taken in at time 0 and again, under the same id,
  at time 0.1; the tick at 0.5 finds the heap entry of the first intake (due at 0.5)
  and makes the third send call for the id. That call is the first retry of the second
  state and comes 0.1 seconds before its \<open>created_at + RETRY_SCHEDULE[1] = 0.6\<close>;
  counted from the first intake it is the second retry and comes 1.5 seconds before
  \<open>RETRY_SCHEDULE[2] = 2\<close>.
\<close>

theorem duplicate_intake_retries_early:
  "mono (clock late_intake_env)
   \<and> (\<exists>s'. run late_intake_env [NewMessage example_message, NewMessage example_message, Wakeup]
             (started late_intake_env) = Inr s'
          \<and> sends_of ''m2'' s' = 3
          \<and> created_at (sent_state (send_log s' ! 0)) = 0
          \<and> created_at (sent_state (send_log s' ! 2)) = 1/10
          \<and> attempt_count (sent_state (send_log s' ! 2)) = 1
          \<and> clock late_intake_env (sent_reads (send_log s' ! 2) - 1) = 1/2
          \<and> \<not> retries_on_time late_intake_env s')"
proof -
  have "mono (clock late_intake_env)"
    by (rule monoI) (simp add: late_intake_env_def example_env_def)
  moreover have "\<exists>s'. run late_intake_env
             [NewMessage example_message, NewMessage example_message, Wakeup]
             (started late_intake_env) = Inr s'
          \<and> sends_of ''m2'' s' = 3
          \<and> created_at (sent_state (send_log s' ! 0)) = 0
          \<and> created_at (sent_state (send_log s' ! 2)) = 1/10
          \<and> attempt_count (sent_state (send_log s' ! 2)) = 1
          \<and> clock late_intake_env (sent_reads (send_log s' ! 2) - 1) = 1/2
          \<and> \<not> retries_on_time late_intake_env s'"
    by (simp add: started_eq late_intake_env_def eval_defs wakeup_loop.simps
        retries_on_time_def retry_on_time_def sends_of_def)
  ultimately show ?thesis by blast
qed

section \<open>A message whose attempts all fail\<close>

text \<open>
  Among the store calls made after the first \<open>c0\<close> there is the write of a failure
  record of the message \<open>m\<close> with \<open>attempt_count = 6\<close> and status FAILED_MAX_RETRIES.
\<close>

definition failure_logged :: "env \<Rightarrow> Message \<Rightarrow> nat \<Rightarrow> scheduler \<Rightarrow> bool" where
  "failure_logged env m c0 s \<longleftrightarrow>
     (\<exists>ts f. PutObject (log_key (failed_prefix env) ts (msg_id m)) (to_json f)
                \<in> set (drop c0 (s3_calls s))
            \<and> message f = m \<and> attempt_count f = 6 \<and> status f = FAILED_MAX_RETRIES)"

text \<open>
  The progress of a message \<open>m\<close> taken in at time \<open>t0\<close>, when \<open>n0\<close> send calls had been
  made for its id and \<open>c0\<close> calls to the store: while it is in the index the number of
  send calls made for it is its \<open>attempt_count\<close>; once it has left, six calls were made
  and its failure record was written.
\<close>

definition delivering :: "env \<Rightarrow> Message \<Rightarrow> real \<Rightarrow> nat \<Rightarrow> nat \<Rightarrow> scheduler \<Rightarrow> bool" where
  "delivering env m t0 n0 c0 s \<longleftrightarrow>
     well_formed s \<and> running s \<and> c0 \<le> length (s3_calls s)
     \<and> (case map_of (message_map s) (msg_id m) of
           Some st \<Rightarrow> message st = m \<and> created_at st = t0
                      \<and> int (sends_of (msg_id m) s) = int n0 + attempt_count st
         | None \<Rightarrow> sends_of (msg_id m) s = n0 + 6 \<and> failure_logged env m c0 s)"

lemma sends_of_clock_reads [simp]: "sends_of k (s\<lparr>clock_reads := n\<rparr>) = sends_of k s"
  by (simp add: sends_of_def)

lemma failure_logged_clock_reads [simp]:
  "failure_logged env m c0 (s\<lparr>clock_reads := n\<rparr>) = failure_logged env m c0 s"
  by (simp add: failure_logged_def)

lemma delivering_clock_reads [simp]:
  "delivering env m t0 n0 c0 (s\<lparr>clock_reads := n\<rparr>) = delivering env m t0 n0 c0 s"
  by (simp add: delivering_def cong: option.case_cong)

lemma failure_logged_append:
  assumes "failure_logged env m c0 s" and "s3_calls s1 = s3_calls s @ cs"
  shows "failure_logged env m c0 s1"
  using assms by (auto simp: failure_logged_def)

lemma delivering_round:
  assumes fails: "\<forall>n. send_function env n m \<noteq> Returned True"
    and d: "delivering env m t0 n0 c0 s" and r: "wakeup_round env ct s = Some r"
  shows "\<exists>s1. r = Inr s1 \<and> delivering env m t0 n0 c0 s1
           \<and> (map_of (message_map s) (msg_id m) = None
                \<longrightarrow> map_of (message_map s1) (msg_id m) = None)"
proof -
  from d have wf: "well_formed s" and run: "running s" and c0: "c0 \<le> length (s3_calls s)"
    by (simp_all add: delivering_def)
  from wf_round[OF wf r] obtain t mid rest st s1 cs where
    h: "map_of (message_map s) mid = Some st" "r = Inr s1" "well_formed s1"
       "send_log s1 = send_log s @ [\<lparr>sent_state = st, sent_reads = clock_reads s\<rparr>]"
       "running s1 = running s"
       "\<forall>k. k \<noteq> mid \<longrightarrow> map_of (message_map s1) k = map_of (message_map s) k"
       "s3_calls s1 = s3_calls s @ cs"
    and out: "if send_function env (length (send_log s)) (message st) = Returned True
             then map_of (message_map s1) mid = None
             else if attempt_count st = 5
             then map_of (message_map s1) mid = None
                  \<and> (\<exists>ts f. PutObject (log_key (failed_prefix env) ts mid) (to_json f)
                                \<in> set cs
                       \<and> message f = message st \<and> message_id f = mid
                       \<and> created_at f = created_at st
                       \<and> attempt_count f = 6 \<and> status f = FAILED_MAX_RETRIES)
             else (\<exists>st'. map_of (message_map s1) mid = Some st'
                       \<and> message st' = message st \<and> created_at st' = created_at st
                       \<and> attempt_count st' = attempt_count st + 1)"
    by blast
  from wf h(1) have id: "message_id st = mid"
    unfolding well_formed_def by blast
  have base: "well_formed s1 \<and> running s1 \<and> c0 \<le> length (s3_calls s1)"
    using h(3,5,7) run c0 by simp
  show ?thesis
  proof (cases "mid = msg_id m")
    case False
    have sends: "sends_of (msg_id m) s1 = sends_of (msg_id m) s"
      using False id by (simp add: sends_of_def h(4))
    have same: "map_of (message_map s1) (msg_id m) = map_of (message_map s) (msg_id m)"
      using False h(6) by simp
    have "delivering env m t0 n0 c0 s1"
      using d base sends same failure_logged_append[OF _ h(7)]
      by (auto simp: delivering_def split: option.splits)
    with h(2) same show ?thesis by simp
  next
    case True
    with d h(1) have st: "message st = m" "created_at st = t0"
        "int (sends_of (msg_id m) s) = int n0 + attempt_count st"
      by (simp_all add: delivering_def)
    have sends: "sends_of (msg_id m) s1 = Suc (sends_of (msg_id m) s)"
      using True id by (simp add: sends_of_def h(4))
    from fails st(1) have nt: "send_function env (length (send_log s)) (message st) \<noteq> Returned True"
      by simp
    have "delivering env m t0 n0 c0 s1"
    proof (cases "attempt_count st = 5")
      case c5: True
      with out nt obtain ts f where
        o: "map_of (message_map s1) mid = None"
           "PutObject (log_key (failed_prefix env) ts mid) (to_json f) \<in> set cs"
           "message f = message st" "attempt_count f = 6" "status f = FAILED_MAX_RETRIES"
        by auto
      have "failure_logged env m c0 s1"
        unfolding failure_logged_def using o(2-5) st(1) True c0 h(7)
        by (intro exI[where x = ts] exI[where x = f]) simp
      moreover have "sends_of (msg_id m) s1 = n0 + 6"
        using sends st(3) c5 by simp
      ultimately show ?thesis
        using base o(1) True by (simp add: delivering_def)
    next
      case False
      with out nt obtain st' where
        o: "map_of (message_map s1) mid = Some st'" "message st' = message st"
           "created_at st' = created_at st" "attempt_count st' = attempt_count st + 1"
        by auto
      with base True st sends show ?thesis
        by (simp add: delivering_def)
    qed
    with h(2) h(1) True show ?thesis by simp
  qed
qed


lemma retry_schedule_le_16:
  assumes "1 \<le> c" and "c < 6"
  shows "RETRY_SCHEDULE ! nat c \<le> 16"
proof -
  from assms have "c = 1 \<or> c = 2 \<or> c = 3 \<or> c = 4 \<or> c = 5" by arith
  then show ?thesis by (auto simp: RETRY_SCHEDULE_def)
qed

text \<open>A tick does not end while an entry of the index is due.\<close>

lemma wakeup_round_due:
  assumes wf: "well_formed s" and st: "map_of (message_map s) k = Some st"
    and late: "created_at st + 16 \<le> ct"
  shows "wakeup_round env ct s \<noteq> None"
proof -
  let ?e = "(created_at st + RETRY_SCHEDULE ! nat (attempt_count st), k)"
  from wf st have c: "1 \<le> attempt_count st" "attempt_count st < 6"
    and e: "?e \<in> set (retry_heap s)"
    unfolding well_formed_def by blast+
  from e obtain h rest where hr: "retry_heap s = h # rest" by (cases "retry_heap s") auto
  from wf hr have "sorted (h # rest)" by (simp add: well_formed_def)
  with e hr have "h \<le> ?e" by auto
  then have "fst h \<le> created_at st + RETRY_SCHEDULE ! nat (attempt_count st)"
    by (cases h) (auto simp: less_eq_prod_def)
  also have "\<dots> \<le> created_at st + 16"
    using retry_schedule_le_16[OF c] by simp
  finally have "fst h \<le> ct" using late by simp
  with hr show ?thesis
    by (cases h) (auto simp: wakeup_round_def Let_def split: option.splits prod.splits)
qed

lemma delivering_wakeup:
  assumes fails: "\<forall>n. send_function env n m \<noteq> Returned True"
    and d: "delivering env m t0 n0 c0 s"
  shows "\<exists>s'. wakeup env s = Inr s' \<and> delivering env m t0 n0 c0 s'
           \<and> (map_of (message_map s) (msg_id m) = None
                \<longrightarrow> map_of (message_map s') (msg_id m) = None)
           \<and> (t0 + 16 \<le> clock env (clock_reads s)
                \<longrightarrow> map_of (message_map s') (msg_id m) = None)"
proof -
  define ct where "ct = clock env (clock_reads s)"
  define P where "P x \<longleftrightarrow> delivering env m t0 n0 c0 x
      \<and> (map_of (message_map s) (msg_id m) = None \<longrightarrow> map_of (message_map x) (msg_id m) = None)"
    for x
  from d have run: "running s" by (simp add: delivering_def)
  have p0: "P (s\<lparr>clock_reads := Suc (clock_reads s)\<rparr>)"
    using d by (simp add: P_def)
  have step: "\<exists>x1. r = Inr x1 \<and> P x1" if "P x" and "wakeup_round env ct x = Some r" for x r
    using delivering_round[OF fails _ that(2), of t0 n0 c0] that(1)
    by (auto simp: P_def)
  have "\<exists>s'. wakeup_loop env ct (s\<lparr>clock_reads := Suc (clock_reads s)\<rparr>) = Inr s' \<and> P s'
      \<and> wakeup_round env ct s' = None"
    by (rule wakeup_loop_total[where P = P, OF p0]) (rule step)
  then obtain s' where
    s': "wakeup_loop env ct (s\<lparr>clock_reads := Suc (clock_reads s)\<rparr>) = Inr s'" "P s'"
      "wakeup_round env ct s' = None"
    by blast
  have "map_of (message_map s') (msg_id m) = None" if "t0 + 16 \<le> ct"
  proof (rule ccontr)
    assume "map_of (message_map s') (msg_id m) \<noteq> None"
    then obtain st where st: "map_of (message_map s') (msg_id m) = Some st" by auto
    with s'(2) have "well_formed s'" "created_at st = t0"
      by (simp_all add: P_def delivering_def)
    from wakeup_round_due[OF this(1) st, of ct env] this(2) that s'(3) show False by simp
  qed
  with s'(1,2) run show ?thesis
    by (simp add: wakeup_def time_time_def ct_def P_def)
qed

lemma delivering_wakeups:
  assumes fails: "\<forall>n. send_function env n m \<noteq> Returned True"
    and d: "delivering env m t0 n0 c0 s"
  shows "\<exists>s'. run env (replicate n Wakeup) s = Inr s' \<and> delivering env m t0 n0 c0 s'
           \<and> (map_of (message_map s) (msg_id m) = None
                \<longrightarrow> map_of (message_map s') (msg_id m) = None)"
  using d
proof (induction n arbitrary: s)
  case 0
  then show ?case by simp
next
  case (Suc n)
  from delivering_wakeup[OF fails Suc.prems] obtain s1 where
    s1: "wakeup env s = Inr s1" "delivering env m t0 n0 c0 s1"
      "map_of (message_map s) (msg_id m) = None \<longrightarrow> map_of (message_map s1) (msg_id m) = None"
    by (elim exE conjE) (rule that)
  from Suc.IH[OF s1(2)] s1(1,3) show ?case by auto
qed

text \<open>
  Claim C1. Let every send attempt for the message \<open>m\<close> fail (return false or raise),
  and let \<open>m\<close> be taken in, under an id that is not in the index, by a running
  well-formed scheduler. After the intake and any number of ticks, once the clock shows
  sixteen seconds or more past the intake, one further tick (and any number of ticks
  after it) leaves exactly six send calls made for the message, the message gone from
  the index, and its failure record, with status FAILED_MAX_RETRIES and
  \<open>attempt_count = 6\<close>, handed to the store.
\<close>

theorem all_fail_exhaustion:
  assumes "well_formed s0" and "running s0"
    and "map_of (message_map s0) (msg_id m) = None"
    and "\<forall>n. send_function env n m \<noteq> Returned True"
    and "run env (NewMessage m # replicate n Wakeup) s0 = Inr s1"
    and "clock env (clock_reads s0) + 16 \<le> clock env (clock_reads s1)"
  shows "\<exists>s2. run env (replicate (Suc j) Wakeup) s1 = Inr s2
           \<and> sends_of (msg_id m) s2 = sends_of (msg_id m) s0 + 6
           \<and> map_of (message_map s2) (msg_id m) = None
           \<and> failure_logged env m (length (s3_calls s0)) s2"
proof -
  let ?t0 = "clock env (clock_reads s0)"
  let ?n0 = "sends_of (msg_id m) s0"
  let ?c0 = "length (s3_calls s0)"
  from wf_newMessage[OF assms(1,3), of env] assms(4) obtain sa cs where
    sa: "newMessage env m s0 = Inr sa" "well_formed sa"
      "send_log sa = send_log s0 @
              [\<lparr>sent_state = \<lparr>message_id = msg_id m, message = m, attempt_count = 0,
                   next_retry_at = ?t0, status = PENDING,
                   created_at = ?t0, updated_at = ?t0\<rparr>,
                sent_reads = Suc (clock_reads s0)\<rparr>]"
      "running sa = running s0" "s3_calls sa = s3_calls s0 @ cs"
      "\<exists>st'. map_of (message_map sa) (msg_id m) = Some st'
                       \<and> message st' = m \<and> created_at st' = ?t0
                       \<and> attempt_count st' = 1"
    by auto
  have da: "delivering env m ?t0 ?n0 ?c0 sa"
    using sa(2-6) assms(2) by (auto simp: delivering_def sends_of_def)
  from assms(5) sa(1) have r1: "run env (replicate n Wakeup) sa = Inr s1" by simp
  from delivering_wakeups[OF assms(4) da, of n] r1
  have d1: "delivering env m ?t0 ?n0 ?c0 s1" by auto
  from delivering_wakeup[OF assms(4) d1] assms(6) obtain sb where
    sb: "wakeup env s1 = Inr sb" "delivering env m ?t0 ?n0 ?c0 sb"
      "map_of (message_map sb) (msg_id m) = None"
    by auto
  from delivering_wakeups[OF assms(4) sb(2), of j] sb(3) obtain s2 where
    s2: "run env (replicate j Wakeup) sb = Inr s2" "delivering env m ?t0 ?n0 ?c0 s2"
      "map_of (message_map s2) (msg_id m) = None"
    by auto
  from s2(2,3) have "sends_of (msg_id m) s2 = ?n0 + 6" "failure_logged env m ?c0 s2"
    by (simp_all add: delivering_def)
  with sb(1) s2(1,3) show ?thesis by simp
qed

text \<open>A clock that advances ten seconds from one reading to the next.\<close>

definition coarse_clock_env :: env where
  "coarse_clock_env = (example_env Raised)\<lparr>clock := (\<lambda>n. 100 + 10 * real n)\<rparr>"

theorem all_fail_exhaustion_witness:
  "\<exists>s1 s2. run coarse_clock_env [NewMessage example_message] (started coarse_clock_env) = Inr s1
         \<and> run coarse_clock_env [Wakeup] s1 = Inr s2
         \<and> sends_of ''m2'' s2 = 6
         \<and> map_of (message_map s2) ''m2'' = None
         \<and> failure_logged coarse_clock_env example_message 1 s2"
proof -
  let ?s0 = "started coarse_clock_env"
  obtain s1 where r: "run coarse_clock_env (NewMessage example_message # replicate 0 Wakeup) ?s0
      = Inr s1" and c: "clock_reads s1 = 3"
    by (simp add: started_eq coarse_clock_env_def eval_defs)
  have w: "well_formed ?s0" by (simp add: well_formed_def started_eq)
  have ru: "running ?s0" by (simp add: started_eq)
  have fr: "map_of (message_map ?s0) (msg_id example_message) = None"
    by (simp add: started_eq)
  have fa: "\<forall>n. send_function coarse_clock_env n example_message \<noteq> Returned True"
    by (simp add: coarse_clock_env_def example_env_def)
  have la: "clock coarse_clock_env (clock_reads ?s0) + 16 \<le> clock coarse_clock_env (clock_reads s1)"
    by (simp add: c coarse_clock_env_def started_eq)
  from all_fail_exhaustion[OF w ru fr fa r la, of 0] r show ?thesis
    by (simp add: started_eq sends_of_def example_message_def)
qed

end
